theory Spec2Isabelle
  imports Complex_Main
begin

section \<open>Data model of the octree (octree.h)\<close>

text \<open>
  \<^verbatim>\<open>Point3f\<close> is OpenCV's triple of \<^verbatim>\<open>float\<close> coordinates; node and tree sizes are
  \<^verbatim>\<open>double\<close>. Both are modelled by \<^typ>\<open>real\<close>: comparisons are exact in either, and the
  arithmetic (\<^verbatim>\<open>+\<close>, \<^verbatim>\<open>-\<close>, halving, doubling) is taken without rounding. Every concrete
  input evaluated below uses small dyadic numbers, on which the floating-point operations
  of the source are exact as well.
\<close>

datatype Point3f = Point3f (pt_x: real) (pt_y: real) (pt_z: real)

definition pt_add :: "Point3f \<Rightarrow> Point3f \<Rightarrow> Point3f" where
  "pt_add a b = Point3f (pt_x a + pt_x b) (pt_y a + pt_y b) (pt_z a + pt_z b)"

definition pt_sub :: "Point3f \<Rightarrow> Point3f \<Rightarrow> Point3f" where
  "pt_sub a b = Point3f (pt_x a - pt_x b) (pt_y a - pt_y b) (pt_z a - pt_z b)"

definition pt_div :: "Point3f \<Rightarrow> real \<Rightarrow> Point3f" where
  "pt_div a d = Point3f (pt_x a / d) (pt_y a / d) (pt_z a / d)"

text \<open>
  Nodes are allocated with \<^verbatim>\<open>new\<close> and linked by raw pointers (\<^verbatim>\<open>children\<close>,
  \<^verbatim>\<open>parent\<close>). A pointer is \<open>None\<close> (\<^verbatim>\<open>nullptr\<close>) or \<open>Some a\<close> for an address \<open>a\<close>; the
  store of nodes is a list indexed by address, a cell being \<open>None\<close> when it was freed by
  \<^verbatim>\<open>delete\<close>. \<^verbatim>\<open>new\<close> takes the next address \<open>length h\<close>.

  \<^verbatim>\<open>pointList\<close> holds pointers to \<^verbatim>\<open>Point3f\<close> objects owned by the caller: the tree stores
  the address of the object passed to \<^verbatim>\<open>insertPoint\<close> and reads the coordinates through
  it in every later lookup and deletion. The caller's objects are a memory of their own,
  from the address of an object to the coordinates it holds now, \<open>None\<close> where no object
  is alive; reading through a pointer to such an address is undefined behaviour. No
  operation of the tree writes to that memory, the caller may change it between calls.
\<close>

type_synonym addr = nat

type_synonym paddr = nat

type_synonym pmem = "paddr \<Rightarrow> Point3f option"

record OctreeNode =
  children :: "addr option list"
  parent :: "addr option"
  parentIndex :: int
  depth :: int
  size_n :: real
  origin_n :: Point3f
  isLeaf :: bool
  pointList :: "paddr list"

type_synonym heap = "OctreeNode option list"

definition childNum :: nat where
  "childNum = 8"

record Octree =
  rootNode :: "addr option"
  size_t :: real
  maxDepth :: int
  origin_t :: Point3f
  heap :: heap

text \<open>
  What a call does: it returns (\<open>Returned\<close>, with the result and the state where it
  changes one), it raises through \<^verbatim>\<open>CV_Error\<close> leaving the state it had reached
  (\<open>Raised\<close>), it runs into undefined behaviour of C++
  such as dereferencing a null or dangling pointer or indexing a vector out of range
  (\<open>Undefined\<close>), or the recursion is not finished after the given number of nested calls
  (\<open>NoFuel\<close>).
\<close>

datatype error = StsBadArg

datatype ('r, 's) outcome = Returned 'r | Raised error 's | Undefined | NoFuel

definition deref :: "heap \<Rightarrow> addr \<Rightarrow> OctreeNode option" where
  "deref h a = (if a < length h then h ! a else None)"

section \<open>Node and tree construction (octree.cpp)\<close>

text \<open>\<^verbatim>\<open>OctreeNode(int _depth, double _size, Point3f _origin, int _parentIndex)\<close>:
  eight null children, \<^verbatim>\<open>parent{}\<close> null, \<^verbatim>\<open>isLeaf = false\<close>, empty \<^verbatim>\<open>pointList\<close>.\<close>

definition newOctreeNode :: "int \<Rightarrow> real \<Rightarrow> Point3f \<Rightarrow> int \<Rightarrow> OctreeNode" where
  "newOctreeNode d s orig pidx =
     \<lparr>children = replicate 8 None, parent = None, parentIndex = pidx, depth = d,
      size_n = s, origin_n = orig, isLeaf = False, pointList = []\<rparr>"

text \<open>\<^verbatim>\<open>Octree(int _maxDepth, double _size, Point3f _origin)\<close>; the root pointer starts null.\<close>

definition newOctree :: "int \<Rightarrow> real \<Rightarrow> Point3f \<Rightarrow> Octree" where
  "newOctree md s orig =
     \<lparr>rootNode = None, size_t = s, maxDepth = md, origin_t = orig, heap = []\<rparr>"

text \<open>\<^verbatim>\<open>isPointInBound(point, origin, size)\<close>: the open cube.\<close>

definition isPointInBound :: "Point3f \<Rightarrow> Point3f \<Rightarrow> real \<Rightarrow> bool" where
  "isPointInBound point orig s \<longleftrightarrow>
     (pt_x point > pt_x orig \<and> pt_y point > pt_y orig \<and> pt_z point > pt_z orig) \<and>
     (pt_x point < pt_x orig + s \<and> pt_y point < pt_y orig + s \<and> pt_z point < pt_z orig + s)"

text \<open>\<^verbatim>\<open>isPointInBound(point)\<close> of the tree: the same test on the tree's own origin and size.\<close>

definition isPointInBound_tree :: "Octree \<Rightarrow> Point3f \<Rightarrow> bool" where
  "isPointInBound_tree t point = isPointInBound point (origin_t t) (size_t t)"

text \<open>
  The octant arithmetic written out in both \<^verbatim>\<open>insertPointRecurse\<close> and \<^verbatim>\<open>index\<close>:
  \<^verbatim>\<open>childSize = size / 2.0\<close>, one index per axis (0 when the coordinate is below
  \<^verbatim>\<open>origin + childSize\<close>, else 1), and \<^verbatim>\<open>childIndex = xIndex + yIndex * 2 + zIndex * 4\<close>.
\<close>

definition xIndex :: "Point3f \<Rightarrow> Point3f \<Rightarrow> real \<Rightarrow> nat" where
  "xIndex point orig s = (if pt_x point < pt_x orig + s / 2 then 0 else 1)"

definition yIndex :: "Point3f \<Rightarrow> Point3f \<Rightarrow> real \<Rightarrow> nat" where
  "yIndex point orig s = (if pt_y point < pt_y orig + s / 2 then 0 else 1)"

definition zIndex :: "Point3f \<Rightarrow> Point3f \<Rightarrow> real \<Rightarrow> nat" where
  "zIndex point orig s = (if pt_z point < pt_z orig + s / 2 then 0 else 1)"

definition childIndex :: "Point3f \<Rightarrow> Point3f \<Rightarrow> real \<Rightarrow> nat" where
  "childIndex point orig s = xIndex point orig s + yIndex point orig s * 2 + zIndex point orig s * 4"

text \<open>\<^verbatim>\<open>childOrigin = origin + Point3f(xIndex * childSize, yIndex * childSize, zIndex * childSize)\<close>.\<close>

definition childOrigin :: "Point3f \<Rightarrow> Point3f \<Rightarrow> real \<Rightarrow> Point3f" where
  "childOrigin point orig s =
     pt_add orig (Point3f (real (xIndex point orig s) * (s / 2))
                          (real (yIndex point orig s) * (s / 2))
                          (real (zIndex point orig s) * (s / 2)))"

section \<open>Insertion\<close>

text \<open>
  \<^verbatim>\<open>insertPointRecurse(node, point)\<close>. The argument \<^verbatim>\<open>point\<close> is a reference to an object
  of the caller: the model takes its address \<open>pt\<close>, which is what \<^verbatim>\<open>&point\<close> stores, and
  the coordinates \<open>point\<close> the object holds during the call, which is what the
  comparisons read. The node pointer is dereferenced at once, so a
  null or dangling one is undefined behaviour. Out of bounds raises \<^verbatim>\<open>StsBadArg\<close>; the
  nodes created on the way down stay in the store. At \<^verbatim>\<open>depth == maxDepth\<close> the node is
  marked as a leaf and the point is appended. Otherwise the child of the octant is
  created when its slot is null (with \<^verbatim>\<open>parent\<close> and \<^verbatim>\<open>parentIndex\<close> set) and the call
  recurses into it.
\<close>

fun insertPointRecurse :: "nat \<Rightarrow> int \<Rightarrow> heap \<Rightarrow> addr \<Rightarrow> paddr \<Rightarrow> Point3f \<Rightarrow> (heap, heap) outcome" where
  "insertPointRecurse 0 md h a pt point = NoFuel"
| "insertPointRecurse (Suc n) md h a pt point =
     (case deref h a of
        None \<Rightarrow> Undefined
      | Some node \<Rightarrow>
          if \<not> isPointInBound point (origin_n node) (size_n node) then Raised StsBadArg h
          else if depth node = md then
            Returned (h[a := Some (node\<lparr>isLeaf := True, pointList := pointList node @ [pt]\<rparr>)])
          else
            let ci = childIndex point (origin_n node) (size_n node) in
            if length (children node) \<le> ci then Undefined
            else
              (case children node ! ci of
                 Some c \<Rightarrow> insertPointRecurse n md h c pt point
               | None \<Rightarrow>
                   let c = length h;
                       child = (newOctreeNode (depth node + 1) (size_n node / 2)
                                  (childOrigin point (origin_n node) (size_n node)) (int ci))
                                \<lparr>parent := Some a\<rparr>;
                       h1 = (h @ [Some child])
                              [a := Some (node\<lparr>children := (children node)[ci := Some c]\<rparr>)]
                   in insertPointRecurse n md h1 c pt point))"

text \<open>
  \<^verbatim>\<open>insertPoint(node, point)\<close>: \<^verbatim>\<open>node\<close> is a reference to a pointer of the caller. When
  it is null a root node (depth 0, the tree's size and origin, parent index -1) is
  allocated and stored through the reference. The model returns the value the reference
  holds afterwards together with the store.
\<close>

definition insertPoint :: "nat \<Rightarrow> Octree \<Rightarrow> addr option \<Rightarrow> paddr \<Rightarrow> Point3f \<Rightarrow> (addr option \<times> heap, addr option \<times> heap) outcome" where
  "insertPoint n t node pt point =
     (let (a, h) = (case node of
                      None \<Rightarrow> (length (heap t),
                                heap t @ [Some (newOctreeNode 0 (size_t t) (origin_t t) (- 1))])
                    | Some a \<Rightarrow> (a, heap t))
      in case insertPointRecurse n (maxDepth t) h a pt point of
           Returned h' \<Rightarrow> Returned (Some a, h')
         | Raised e h' \<Rightarrow> Raised e (Some a, h')
         | Undefined \<Rightarrow> Undefined
         | NoFuel \<Rightarrow> NoFuel)"

text \<open>The call \<^verbatim>\<open>insertPoint(rootNode, point)\<close> on the tree's own root pointer.\<close>

definition insertPoint_root :: "nat \<Rightarrow> Octree \<Rightarrow> paddr \<Rightarrow> Point3f \<Rightarrow> (Octree, Octree) outcome" where
  "insertPoint_root n t pt point =
     (case insertPoint n t (rootNode t) pt point of
        Returned (r, h') \<Rightarrow> Returned (t\<lparr>rootNode := r, heap := h'\<rparr>)
      | Raised e (r, h') \<Rightarrow> Raised e (t\<lparr>rootNode := r, heap := h'\<rparr>)
      | Undefined \<Rightarrow> Undefined
      | NoFuel \<Rightarrow> NoFuel)"

section \<open>Lookup\<close>

text \<open>
  The loop of \<^verbatim>\<open>index\<close> over a leaf's \<^verbatim>\<open>pointList\<close>: the entries are read through in
  order, up to the first whose object holds the query's three coordinates. \<open>None\<close> is
  a read through a pointer to no live object.
\<close>

definition pointEq :: "Point3f \<Rightarrow> Point3f \<Rightarrow> bool" where
  "pointEq point q \<longleftrightarrow> pt_x point = pt_x q \<and> pt_y point = pt_y q \<and> pt_z point = pt_z q"

primrec scanPoints :: "pmem \<Rightarrow> Point3f \<Rightarrow> paddr list \<Rightarrow> bool option" where
  "scanPoints pm point [] = Some False"
| "scanPoints pm point (q # qs) =
     (case pm q of
        None \<Rightarrow> None
      | Some v \<Rightarrow> if pointEq point v then Some True else scanPoints pm point qs)"

text \<open>
  \<^verbatim>\<open>index(point, node)\<close>: null for a null node; at a leaf, the node itself when the loop
  above finds the point, else null; at an inner node the child of the point's octant is
  searched when the point is in the node's cube and the slot is not null, else the
  result is null.
\<close>

fun index :: "nat \<Rightarrow> pmem \<Rightarrow> heap \<Rightarrow> Point3f \<Rightarrow> addr option \<Rightarrow> (addr option, unit) outcome" where
  "index 0 pm h point node = NoFuel"
| "index (Suc n) pm h point None = Returned None"
| "index (Suc n) pm h point (Some a) =
     (case deref h a of
        None \<Rightarrow> Undefined
      | Some node \<Rightarrow>
          if isLeaf node then
            (case scanPoints pm point (pointList node) of
               None \<Rightarrow> Undefined
             | Some found \<Rightarrow> if found then Returned (Some a) else Returned None)
          else if isPointInBound point (origin_n node) (size_n node) then
            let ci = childIndex point (origin_n node) (size_n node) in
            if length (children node) \<le> ci then Undefined
            else
              (case children node ! ci of
                 Some c \<Rightarrow> index n pm h point (Some c)
               | None \<Rightarrow> Returned None)
          else Returned None)"

text \<open>\<^verbatim>\<open>index(point)\<close>: null outside the tree's own cube, else the search from the root.\<close>

definition index_tree :: "nat \<Rightarrow> pmem \<Rightarrow> Octree \<Rightarrow> Point3f \<Rightarrow> (addr option, unit) outcome" where
  "index_tree n pm t point =
     (if isPointInBound_tree t point then index n pm (heap t) point (rootNode t)
      else Returned None)"

section \<open>Construction from a point cloud\<close>

text \<open>
  \<^verbatim>\<open>findCenterInPointCloud\<close>: both bounds start at \<^verbatim>\<open>pointCloud[0]\<close>, read without any
  test of the vector's size (undefined behaviour on an empty vector); the loop widens
  them over every point, and the result is \<^verbatim>\<open>(maxBound + minBound) / 2.0\<close>.
\<close>

fun boundsLoop :: "Point3f list \<Rightarrow> Point3f \<times> Point3f \<Rightarrow> Point3f \<times> Point3f" where
  "boundsLoop [] (maxBound, minBound) = (maxBound, minBound)"
| "boundsLoop (q # qs) (maxBound, minBound) =
     boundsLoop qs
       (Point3f (max (pt_x q) (pt_x maxBound)) (max (pt_y q) (pt_y maxBound))
                (max (pt_z q) (pt_z maxBound)),
        Point3f (min (pt_x q) (pt_x minBound)) (min (pt_y q) (pt_y minBound))
                (min (pt_z q) (pt_z minBound)))"

definition findCenterInPointCloud :: "Point3f list \<Rightarrow> (Point3f, unit) outcome" where
  "findCenterInPointCloud pointCloud =
     (case pointCloud of
        [] \<Rightarrow> Undefined
      | q # _ \<Rightarrow>
          (let (maxBound, minBound) = boundsLoop pointCloud (q, q)
           in Returned (pt_div (pt_add maxBound minBound) 2)))"

text \<open>The loop of \<^verbatim>\<open>convertFromPointCloud\<close>: \<^verbatim>\<open>insertPoint(rootNode, pointCloud[idx])\<close>
  for every index in order; an exception leaves the loop with the state reached. The
  elements of the vector lie at consecutive addresses; \<open>pa\<close> is the address of the
  element the loop has reached.\<close>

fun insertAll :: "nat \<Rightarrow> Octree \<Rightarrow> paddr \<Rightarrow> Point3f list \<Rightarrow> (Octree, Octree) outcome" where
  "insertAll n t pa [] = Returned t"
| "insertAll n t pa (q # qs) =
     (case insertPoint_root n t pa q of
        Returned t' \<Rightarrow> insertAll n t' (pa + 1) qs
      | Raised e t' \<Rightarrow> Raised e t'
      | Undefined \<Rightarrow> Undefined
      | NoFuel \<Rightarrow> NoFuel)"

text \<open>
  \<^verbatim>\<open>convertFromPointCloud\<close>: \<^verbatim>\<open>halfSize\<close> is the largest coordinate of the centre;
  \<^verbatim>\<open>origin = center - Point3f(halfSize, halfSize, halfSize)\<close>, \<^verbatim>\<open>size = 2 * halfSize\<close>;
  then every point is inserted, and the result is \<^verbatim>\<open>true\<close>. \<open>base\<close> is the address of
  the vector's first element.
\<close>

definition convertFromPointCloud :: "nat \<Rightarrow> Octree \<Rightarrow> paddr \<Rightarrow> Point3f list \<Rightarrow> (bool \<times> Octree, Octree) outcome" where
  "convertFromPointCloud n t base pointCloud =
     (case findCenterInPointCloud pointCloud of
        Returned center \<Rightarrow>
          (let halfSize = max (pt_x center) (max (pt_y center) (pt_z center));
               t1 = t\<lparr>origin_t := pt_sub center (Point3f halfSize halfSize halfSize),
                      size_t := 2 * halfSize\<rparr>
           in case insertAll n t1 base pointCloud of
                Returned t' \<Rightarrow> Returned (True, t')
              | Raised e t' \<Rightarrow> Raised e t'
              | Undefined \<Rightarrow> Undefined
              | NoFuel \<Rightarrow> NoFuel)
      | Raised e c \<Rightarrow> Undefined
      | Undefined \<Rightarrow> Undefined
      | NoFuel \<Rightarrow> NoFuel)"

text \<open>\<^verbatim>\<open>Octree(int _maxDepth, std::vector<Point3f>& _pointCloud)\<close>: size 0, the default
  origin, a null root, then \<^verbatim>\<open>convertFromPointCloud\<close>.\<close>

definition Octree_fromPointCloud :: "nat \<Rightarrow> int \<Rightarrow> paddr \<Rightarrow> Point3f list \<Rightarrow> (bool \<times> Octree, Octree) outcome" where
  "Octree_fromPointCloud n md base pointCloud =
     convertFromPointCloud n (newOctree md 0 (Point3f 0 0 0)) base pointCloud"

definition isEmpty :: "Octree \<Rightarrow> bool" where
  "isEmpty t \<longleftrightarrow> rootNode t = None"

section \<open>Deletion\<close>

text \<open>
  The loop of \<^verbatim>\<open>deletePoint\<close> over the leaf's \<^verbatim>\<open>pointList\<close>: at index \<open>i\<close> an
  entry whose object holds the point's coordinates is erased (the later entries move down
  by one), and in either case \<open>i\<close> is incremented. \<open>None\<close> is a read through a pointer
  to no live object.
\<close>

function erasePoints :: "pmem \<Rightarrow> Point3f \<Rightarrow> nat \<Rightarrow> paddr list \<Rightarrow> paddr list option" where
  "erasePoints pm point i l =
     (if i < length l then
        (case pm (l ! i) of
           None \<Rightarrow> None
         | Some v \<Rightarrow>
             if pointEq point v then erasePoints pm point (i + 1) (take i l @ drop (Suc i) l)
             else erasePoints pm point (i + 1) l)
      else Some l)"
  by pat_completeness auto
termination
  by (relation "measure (\<lambda>(pm, point, i, l). length l - i)") auto

declare erasePoints.simps [simp del]

text \<open>
  \<^verbatim>\<open>deletePointRecurse(node)\<close>: \<^verbatim>\<open>false\<close> for a null pointer. A leaf whose
  \<^verbatim>\<open>pointList\<close> is \<^emph>\<open>not\<close> empty is taken out of its parent's slot \<^verbatim>\<open>parentIndex\<close> and
  freed, and the call goes on with the parent; a leaf with an empty list is left as it
  is. An inner node whose eight slots are all null sets \<^verbatim>\<open>node = nullptr\<close>, which
  assigns the caller's local pointer variable the reference is bound to (\<^verbatim>\<open>node\<close> of
  \<^verbatim>\<open>deletePoint\<close>, \<^verbatim>\<open>parent\<close> of the enclosing call) and nothing in the store, and the
  call goes on with the parent.
\<close>

fun deletePointRecurse :: "nat \<Rightarrow> heap \<Rightarrow> addr option \<Rightarrow> (bool \<times> heap, heap) outcome" where
  "deletePointRecurse 0 h node = NoFuel"
| "deletePointRecurse (Suc n) h None = Returned (False, h)"
| "deletePointRecurse (Suc n) h (Some a) =
     (case deref h a of
        None \<Rightarrow> Undefined
      | Some node \<Rightarrow>
          if isLeaf node then
            (if pointList node \<noteq> [] then
               (case parent node of
                  None \<Rightarrow> Undefined
                | Some pa \<Rightarrow>
                    (case deref h pa of
                       None \<Rightarrow> Undefined
                     | Some pnode \<Rightarrow>
                         if parentIndex node < 0 \<or> int (length (children pnode)) \<le> parentIndex node
                         then Undefined
                         else
                           let h1 = h[pa := Some (pnode\<lparr>children :=
                                         (children pnode)[nat (parentIndex node) := None]\<rparr>)];
                               h2 = h1[a := None]
                           in deletePointRecurse n h2 (Some pa)))
             else Returned (True, h))
          else
            (if list_ex (\<lambda>c. c \<noteq> None) (take childNum (children node)) then Returned (True, h)
             else if length (children node) < childNum then Undefined
             else deletePointRecurse n h (parent node)))"

text \<open>
  \<^verbatim>\<open>deletePoint(point)\<close>: the leaf is looked up with \<^verbatim>\<open>index(point, rootNode)\<close>; when
  there is none the result is \<^verbatim>\<open>false\<close>; otherwise the loop above runs on the leaf's
  list and the result is that of \<^verbatim>\<open>deletePointRecurse\<close>. \<^verbatim>\<open>rootNode\<close> is never assigned.
\<close>

definition deletePoint :: "nat \<Rightarrow> pmem \<Rightarrow> Octree \<Rightarrow> Point3f \<Rightarrow> (bool \<times> Octree, Octree) outcome" where
  "deletePoint n pm t point =
     (case index n pm (heap t) point (rootNode t) of
        Returned None \<Rightarrow> Returned (False, t)
      | Returned (Some a) \<Rightarrow>
          (case deref (heap t) a of
             None \<Rightarrow> Undefined
           | Some node \<Rightarrow>
               (case erasePoints pm point 0 (pointList node) of
                  None \<Rightarrow> Undefined
                | Some l \<Rightarrow>
                    (let h1 = (heap t)[a := Some (node\<lparr>pointList := l\<rparr>)]
                     in case deletePointRecurse n h1 (Some a) of
                          Returned (b, h2) \<Rightarrow> Returned (b, t\<lparr>heap := h2\<rparr>)
                        | Raised e h2 \<Rightarrow> Raised e (t\<lparr>heap := h2\<rparr>)
                        | Undefined \<Rightarrow> Undefined
                        | NoFuel \<Rightarrow> NoFuel)))
      | Raised e r \<Rightarrow> Undefined
      | Undefined \<Rightarrow> Undefined
      | NoFuel \<Rightarrow> NoFuel)"

section \<open>Traversal\<close>




section \<open>Sequences of operations\<close>

text \<open>
  A caller's sequence of calls on one tree, run in order with the same bound on the
  nesting of calls; it ends at the first call that does not return. \<open>InsertPoint pt q\<close>
  is \<^verbatim>\<open>insertPoint(rootNode, p)\<close> on the caller's object at address \<open>pt\<close>, which holds the
  coordinates \<open>q\<close> when the call is made (the caller may have assigned them since the
  last call); \<open>DeletePoint q\<close> is \<^verbatim>\<open>deletePoint\<close> with the coordinates \<open>q\<close>.
\<close>

datatype operation = InsertPoint paddr Point3f | DeletePoint Point3f

fun apply_ops :: "nat \<Rightarrow> pmem \<Rightarrow> Octree \<Rightarrow> operation list \<Rightarrow> (Octree, Octree) outcome" where
  "apply_ops n pm t [] = Returned t"
| "apply_ops n pm t (InsertPoint pt q # ops) =
     (case insertPoint_root n t pt q of
        Returned t' \<Rightarrow> apply_ops n (pm(pt \<mapsto> q)) t' ops
      | Raised e t' \<Rightarrow> Raised e t'
      | Undefined \<Rightarrow> Undefined
      | NoFuel \<Rightarrow> NoFuel)"
| "apply_ops n pm t (DeletePoint q # ops) =
     (case deletePoint n pm t q of
        Returned (b, t') \<Rightarrow> apply_ops n pm t' ops
      | Raised e t' \<Rightarrow> Raised e t'
      | Undefined \<Rightarrow> Undefined
      | NoFuel \<Rightarrow> NoFuel)"

section \<open>Shape of the node store\<close>

text \<open>
  What the operations keep true of every live node of the store: it has its eight slots;
  it is marked as a leaf only at depth \<^verbatim>\<open>maxDepth\<close>; at that depth it has no child; and a
  non-null slot \<open>i\<close> points to a live node one level deeper whose \<^verbatim>\<open>parent\<close> and
  \<^verbatim>\<open>parentIndex\<close> name this node and this slot.
\<close>

definition wf_node :: "int \<Rightarrow> heap \<Rightarrow> addr \<Rightarrow> OctreeNode \<Rightarrow> bool" where
  "wf_node md h a node \<longleftrightarrow>
     length (children node) = childNum \<and>
     (isLeaf node \<longrightarrow> depth node = md) \<and>
     (depth node = md \<longrightarrow> (\<forall>i. i < childNum \<longrightarrow> children node ! i = None)) \<and>
     (\<forall>i c. i < childNum \<and> children node ! i = Some c \<longrightarrow>
        (\<exists>cn. deref h c = Some cn \<and> depth cn = depth node + 1 \<and>
              parent cn = Some a \<and> parentIndex cn = int i))"

definition wf_heap :: "int \<Rightarrow> heap \<Rightarrow> bool" where
  "wf_heap md h \<longleftrightarrow> (\<forall>a node. deref h a = Some node \<longrightarrow> wf_node md h a node)"

text \<open>A \<^verbatim>\<open>parent\<close> pointer that is set points to a live node whose depth is not
  \<^verbatim>\<open>maxDepth\<close>, hence to a node that is not a leaf.\<close>

definition parents_ok :: "int \<Rightarrow> heap \<Rightarrow> bool" where
  "parents_ok md h \<longleftrightarrow>
     (\<forall>c cn pa. deref h c = Some cn \<and> parent cn = Some pa \<longrightarrow>
        (\<exists>pn. deref h pa = Some pn \<and> depth pn \<noteq> md))"

text \<open>
  How an insertion may change a node it finds in the store: depth and cube stay, set
  slots stay, a leaf stays a leaf, only a node at depth \<^verbatim>\<open>maxDepth\<close> becomes one, and
  the pointers in its list stay there. Nodes above the depth \<open>d\<close> of the node the
  insertion starts from are not changed at all.
\<close>

definition node_grows :: "int \<Rightarrow> OctreeNode \<Rightarrow> OctreeNode \<Rightarrow> bool" where
  "node_grows md node node' \<longleftrightarrow>
     depth node' = depth node \<and> origin_n node' = origin_n node \<and> size_n node' = size_n node \<and>
     parent node' = parent node \<and>
     length (children node') = length (children node) \<and>
     (\<forall>i c. children node ! i = Some c \<longrightarrow> children node' ! i = Some c) \<and>
     (isLeaf node \<longrightarrow> isLeaf node') \<and>
     (isLeaf node' \<and> \<not> isLeaf node \<longrightarrow> depth node = md) \<and>
     set (pointList node) \<subseteq> set (pointList node')"

definition ins_frame :: "int \<Rightarrow> int \<Rightarrow> heap \<Rightarrow> heap \<Rightarrow> bool" where
  "ins_frame md d h h' \<longleftrightarrow>
     length h \<le> length h' \<and>
     (\<forall>b node. deref h b = Some node \<longrightarrow>
        (\<exists>node'. deref h' b = Some node' \<and> node_grows md node node' \<and>
           (depth node < d \<longrightarrow> node' = node)))"

text \<open>
  For a tree, moreover, the root node (when the root pointer is set and live) has the
  tree's own origin and size and a null \<^verbatim>\<open>parent\<close>, as \<^verbatim>\<open>insertPoint\<close> creates it.
\<close>

definition wf_tree :: "Octree \<Rightarrow> bool" where
  "wf_tree t \<longleftrightarrow>
     wf_heap (maxDepth t) (heap t) \<and> parents_ok (maxDepth t) (heap t) \<and>
     (\<forall>r node. rootNode t = Some r \<and> deref (heap t) r = Some node \<longrightarrow>
        origin_n node = origin_t t \<and> size_n node = size_t t \<and> parent node = None)"

text \<open>What a deletion leaves of the nodes it keeps: their cubes and parent pointers.\<close>

definition del_frame :: "heap \<Rightarrow> heap \<Rightarrow> bool" where
  "del_frame h h' \<longleftrightarrow>
     (\<forall>b node'. deref h' b = Some node' \<longrightarrow>
        (\<exists>node. deref h b = Some node \<and> origin_n node' = origin_n node \<and>
           size_n node' = size_n node \<and> parent node' = parent node))"

text \<open>
  The trees a caller can build: a new tree over any bounds, then \<^verbatim>\<open>insertPoint\<close> on the
  root pointer (returning, or raising with the caller going on) and \<^verbatim>\<open>deletePoint\<close>, with
  the caller's objects in any state at each call.
\<close>

inductive reachable :: "Octree \<Rightarrow> bool" where
  new: "reachable (newOctree md s orig)"
| inserted: "reachable t \<Longrightarrow> insertPoint_root n t pt point = Returned t' \<Longrightarrow> reachable t'"
| insert_raised: "reachable t \<Longrightarrow> insertPoint_root n t pt point = Raised e t' \<Longrightarrow> reachable t'"
| deleted: "reachable t \<Longrightarrow> deletePoint n pm t point = Returned (b, t') \<Longrightarrow> reachable t'"

text \<open>Any number of further \<^verbatim>\<open>insertPoint\<close> calls on the root pointer, and no deletion.\<close>

inductive insertions :: "Octree \<Rightarrow> Octree \<Rightarrow> bool" where
  none: "insertions t t"
| more: "insertions t t1 \<Longrightarrow> insertPoint_root n t1 pt q = Returned t2 \<Longrightarrow> insertions t t2"
| more_raised: "insertions t t1 \<Longrightarrow> insertPoint_root n t1 pt q = Raised e t2 \<Longrightarrow> insertions t t2"

text \<open>Every pointer in a \<^verbatim>\<open>pointList\<close> of the store points to a live object of the caller.\<close>

definition points_alive :: "pmem \<Rightarrow> heap \<Rightarrow> bool" where
  "points_alive pm h \<longleftrightarrow>
     (\<forall>a node q. deref h a = Some node \<and> q \<in> set (pointList node) \<longrightarrow> pm q \<noteq> None)"


section \<open>Calls that raise nothing\<close>

text \<open>
  \<^verbatim>\<open>index\<close>, \<^verbatim>\<open>findCenterInPointCloud\<close> and \<^verbatim>\<open>deletePointRecurse\<close> contain no
  \<^verbatim>\<open>CV_Error\<close>: the branches that \<^verbatim>\<open>deletePoint\<close> and \<^verbatim>\<open>convertFromPointCloud\<close> need for
  a raising callee are never taken.
\<close>

lemma index_not_Raised: "index n pm h point node \<noteq> Raised e s"
proof (induction n arbitrary: node)
  case 0
  show ?case by simp
next
  case (Suc n)
  show ?case
  proof (cases node)
    case None
    then show ?thesis by simp
  next
    case (Some a)
    show ?thesis using Suc.IH unfolding Some
      by (auto simp: Let_def split: option.splits)
  qed
qed

lemma findCenterInPointCloud_not_Raised: "findCenterInPointCloud pointCloud \<noteq> Raised e s"
  by (auto simp: findCenterInPointCloud_def split: list.splits prod.splits)

lemma deletePointRecurse_not_Raised: "deletePointRecurse n h node \<noteq> Raised e s"
proof (induction n arbitrary: h node)
  case 0
  show ?case by simp
next
  case (Suc n)
  show ?case
  proof (cases node)
    case None
    then show ?thesis by simp
  next
    case (Some a)
    show ?thesis using Suc.IH unfolding Some
      by (auto simp: Let_def split: option.splits)
  qed
qed

section \<open>Deletion on concrete trees\<close>

text \<open>
  C1 (pruning keeps I1 and I2). On the tree with \<^verbatim>\<open>maxDepth = 1\<close>, origin \<open>(0,0,0)\<close> and
  size 2, inserting the caller's object 0 holding \<open>(1/2,1/2,1/2)\<close> and deleting that point
  again returns with the leaf of octant 0 still in slot 0 of the root, marked as a leaf,
  with an empty \<^verbatim>\<open>pointList\<close>: the test in \<^verbatim>\<open>deletePointRecurse\<close> frees a leaf whose list
  is \<^emph>\<open>not\<close> empty and keeps an emptied one. With a second object 1 holding
  \<open>(1/4,1/4,1/4)\<close> in the same leaf, deleting the first point frees the leaf together with
  the second pointer and leaves a root without any child.
\<close>

theorem deletePoint_keeps_emptied_leaf:
  "apply_ops 3 Map.empty (newOctree 1 2 (Point3f 0 0 0))
     [InsertPoint 0 (Point3f (1/2) (1/2) (1/2)), DeletePoint (Point3f (1/2) (1/2) (1/2))] =
   Returned
     \<lparr>rootNode = Some 0, size_t = 2, maxDepth = 1, origin_t = Point3f 0 0 0,
      heap =
        [Some \<lparr>children = [Some 1, None, None, None, None, None, None, None],
               parent = None, parentIndex = - 1, depth = 0, size_n = 2,
               origin_n = Point3f 0 0 0, isLeaf = False, pointList = []\<rparr>,
         Some \<lparr>children = [None, None, None, None, None, None, None, None],
               parent = Some 0, parentIndex = 0, depth = 1, size_n = 1,
               origin_n = Point3f 0 0 0, isLeaf = True, pointList = []\<rparr>]\<rparr>
   \<and>
   apply_ops 3 Map.empty (newOctree 1 2 (Point3f 0 0 0))
     [InsertPoint 0 (Point3f (1/2) (1/2) (1/2)), InsertPoint 1 (Point3f (1/4) (1/4) (1/4)),
      DeletePoint (Point3f (1/2) (1/2) (1/2))] =
   Returned
     \<lparr>rootNode = Some 0, size_t = 2, maxDepth = 1, origin_t = Point3f 0 0 0,
      heap =
        [Some \<lparr>children = [None, None, None, None, None, None, None, None],
               parent = None, parentIndex = - 1, depth = 0, size_n = 2,
               origin_n = Point3f 0 0 0, isLeaf = False, pointList = []\<rparr>,
         None]\<rparr>"
  by code_simp

text \<open>
  C4 (delete, then lookup finds nothing). On a tree with \<^verbatim>\<open>maxDepth = 0\<close> the root is the
  leaf. After the caller's object 0 holding \<open>(1/2,1/2,1/2)\<close> was inserted twice,
  \<^verbatim>\<open>deletePoint\<close> erases one entry, finds the list not empty, and \<^verbatim>\<open>deletePointRecurse\<close>
  writes through the root's null \<^verbatim>\<open>parent\<close>: the call has undefined behaviour instead of
  removing the point.
\<close>

theorem deletePoint_root_leaf_undefined:
  "apply_ops 1 Map.empty (newOctree 0 2 (Point3f 0 0 0))
     [InsertPoint 0 (Point3f (1/2) (1/2) (1/2)), InsertPoint 0 (Point3f (1/2) (1/2) (1/2))] =
   Returned
     \<lparr>rootNode = Some 0, size_t = 2, maxDepth = 0, origin_t = Point3f 0 0 0,
      heap =
        [Some \<lparr>children = [None, None, None, None, None, None, None, None],
               parent = None, parentIndex = - 1, depth = 0, size_n = 2,
               origin_n = Point3f 0 0 0, isLeaf = True, pointList = [0, 0]\<rparr>]\<rparr>
   \<and>
   deletePoint 3 [0 \<mapsto> Point3f (1/2) (1/2) (1/2)]
     \<lparr>rootNode = Some 0, size_t = 2, maxDepth = 0, origin_t = Point3f 0 0 0,
      heap =
        [Some \<lparr>children = [None, None, None, None, None, None, None, None],
               parent = None, parentIndex = - 1, depth = 0, size_n = 2,
               origin_n = Point3f 0 0 0, isLeaf = True, pointList = [0, 0]\<rparr>]\<rparr>
     (Point3f (1/2) (1/2) (1/2)) = Undefined"
  by code_simp

text \<open>
  C5 (every equal entry is removed). The loop of \<^verbatim>\<open>deletePoint\<close> steps to the next
  index after an erase, so the entry that moved into the erased position is never
  compared: of two adjacent entries equal to the point one stays, while equal entries
  with another point between them are both erased. On the tree with \<^verbatim>\<open>maxDepth = 1\<close>
  whose leaf holds the pointer to \<open>(1/2,1/2,1/2)\<close> twice, \<^verbatim>\<open>deletePoint\<close> then finds the
  list not empty, frees the whole leaf and returns \<^verbatim>\<open>false\<close>.
\<close>

theorem erasePoints_skips_adjacent_duplicate:
  "erasePoints [0 \<mapsto> Point3f (1/2) (1/2) (1/2)] (Point3f (1/2) (1/2) (1/2)) 0 [0, 0] = Some [0]
   \<and>
   erasePoints [0 \<mapsto> Point3f (1/2) (1/2) (1/2), 1 \<mapsto> Point3f (1/4) (1/4) (1/4)]
     (Point3f (1/2) (1/2) (1/2)) 0 [0, 1, 0] = Some [1]
   \<and>
   erasePoints [0 \<mapsto> Point3f (1/2) (1/2) (1/2), 1 \<mapsto> Point3f (1/2) (1/2) (1/2)]
     (Point3f (1/2) (1/2) (1/2)) 0 [0, 1] = Some [1]
   \<and>
   deletePoint 3 [0 \<mapsto> Point3f (1/2) (1/2) (1/2)]
     \<lparr>rootNode = Some 0, size_t = 2, maxDepth = 1, origin_t = Point3f 0 0 0,
      heap =
        [Some \<lparr>children = [Some 1, None, None, None, None, None, None, None],
               parent = None, parentIndex = - 1, depth = 0, size_n = 2,
               origin_n = Point3f 0 0 0, isLeaf = False, pointList = []\<rparr>,
         Some \<lparr>children = [None, None, None, None, None, None, None, None],
               parent = Some 0, parentIndex = 0, depth = 1, size_n = 1,
               origin_n = Point3f 0 0 0, isLeaf = True, pointList = [0, 0]\<rparr>]\<rparr>
     (Point3f (1/2) (1/2) (1/2)) =
   Returned (False,
     \<lparr>rootNode = Some 0, size_t = 2, maxDepth = 1, origin_t = Point3f 0 0 0,
      heap =
        [Some \<lparr>children = [None, None, None, None, None, None, None, None],
               parent = None, parentIndex = - 1, depth = 0, size_n = 2,
               origin_n = Point3f 0 0 0, isLeaf = False, pointList = []\<rparr>,
         None]\<rparr>)"
  by code_simp

text \<open>
  C6 (full drain empties the tree). One point inserted and deleted again: the call
  returns and the root pointer still holds the root's address, so \<^verbatim>\<open>isEmpty\<close> is false.
  The same holds for the two points of the scenario of the specification.
\<close>

theorem drain_keeps_root:
  "(case apply_ops 3 Map.empty (newOctree 1 2 (Point3f 0 0 0))
           [InsertPoint 0 (Point3f (1/2) (1/2) (1/2)), DeletePoint (Point3f (1/2) (1/2) (1/2))] of
      Returned t \<Rightarrow> (rootNode t, isEmpty t)
    | Raised e t \<Rightarrow> (None, True) | Undefined \<Rightarrow> (None, True) | NoFuel \<Rightarrow> (None, True))
   = (Some 0, False)
   \<and>
   (case apply_ops 3 Map.empty (newOctree 1 2 (Point3f 0 0 0))
           [InsertPoint 0 (Point3f (1/8) (1/8) (1/8)), InsertPoint 1 (Point3f (15/8) (15/8) (15/8)),
            DeletePoint (Point3f (1/8) (1/8) (1/8)), DeletePoint (Point3f (15/8) (15/8) (15/8))] of
      Returned t \<Rightarrow> (rootNode t, isEmpty t)
    | Raised e t \<Rightarrow> (None, True) | Undefined \<Rightarrow> (None, True) | NoFuel \<Rightarrow> (None, True))
   = (Some 0, False)"
  by code_simp

section \<open>Construction from a point cloud, concretely and in general\<close>

text \<open>
  C2 (the root cube is the bounding cube). For the cloud \<open>(-3,0,0), (5,0,0)\<close> the bounding
  box has centre \<open>(1,0,0)\<close> and largest half-extent 4. The code takes the largest
  coordinate of the centre, 1, as half edge: origin \<open>(0,-1,-1)\<close>, size 2. The first point
  of the cloud is outside that cube and its insertion raises \<^verbatim>\<open>StsBadArg\<close>.
\<close>

theorem convertFromPointCloud_half_edge_from_centre:
  "Octree_fromPointCloud 2 1 0 [Point3f (- 3) 0 0, Point3f 5 0 0] =
   Raised StsBadArg
     \<lparr>rootNode = Some 0, size_t = 2, maxDepth = 1, origin_t = Point3f 0 (- 1) (- 1),
      heap =
        [Some \<lparr>children = [None, None, None, None, None, None, None, None],
               parent = None, parentIndex = - 1, depth = 0, size_n = 2,
               origin_n = Point3f 0 (- 1) (- 1), isLeaf = False, pointList = []\<rparr>]\<rparr>
   \<and> \<not> isPointInBound (Point3f (- 3) 0 0) (Point3f 0 (- 1) (- 1)) 2
   \<and> boundsLoop [Point3f (- 3) 0 0, Point3f 5 0 0] (Point3f (- 3) 0 0, Point3f (- 3) 0 0)
       = (Point3f 5 0 0, Point3f (- 3) 0 0)"
  by code_simp

text \<open>
  C3 (an empty cloud is rejected with InvalidArgument). There is no test for an empty
  vector: \<^verbatim>\<open>findCenterInPointCloud\<close> reads \<^verbatim>\<open>pointCloud[0]\<close> at once, which is undefined
  behaviour on an empty vector, and nothing is raised.
\<close>

theorem convertFromPointCloud_empty_undefined:
  "findCenterInPointCloud [] = Undefined
   \<and> convertFromPointCloud n t base [] = Undefined
   \<and> Octree_fromPointCloud n md base [] = Undefined"
  by (simp add: Octree_fromPointCloud_def convertFromPointCloud_def findCenterInPointCloud_def)

text \<open>
  C10 (the boolean result). Whenever \<^verbatim>\<open>convertFromPointCloud\<close> returns, it returns
  \<^verbatim>\<open>true\<close>; a failure is an exception or undefined behaviour, never the value \<^verbatim>\<open>false\<close>.
\<close>

theorem convertFromPointCloud_returns_true:
  "convertFromPointCloud n t base pointCloud = Returned (b, t') \<Longrightarrow> b = True"
  by (auto simp: convertFromPointCloud_def Let_def split: outcome.splits)

text \<open>Witness for C10: the two-point cloud of the specification's scenario, on which the
  call returns.\<close>

theorem convertFromPointCloud_returns_true_witness:
  "convertFromPointCloud 2 (newOctree 1 0 (Point3f 0 0 0)) 0
     [(Point3f (1/8) (1/8) (1/8)), (Point3f (15/8) (15/8) (15/8))] =
   Returned (True,
     \<lparr>rootNode = Some 0, size_t = 2, maxDepth = 1, origin_t = Point3f 0 0 0,
      heap =
        [Some \<lparr>children = [Some 1, None, None, None, None, None, None, Some 2],
               parent = None, parentIndex = - 1, depth = 0, size_n = 2,
               origin_n = Point3f 0 0 0, isLeaf = False, pointList = []\<rparr>,
         Some \<lparr>children = [None, None, None, None, None, None, None, None],
               parent = Some 0, parentIndex = 0, depth = 1, size_n = 1,
               origin_n = Point3f 0 0 0, isLeaf = True, pointList = [0]\<rparr>,
         Some \<lparr>children = [None, None, None, None, None, None, None, None],
               parent = Some 0, parentIndex = 7, depth = 1, size_n = 1,
               origin_n = Point3f 1 1 1, isLeaf = True, pointList = [1]\<rparr>]\<rparr>)"
proof -
  have run: "convertFromPointCloud 2 (newOctree 1 0 (Point3f 0 0 0)) 0
     [(Point3f (1/8) (1/8) (1/8)), (Point3f (15/8) (15/8) (15/8))] =
   Returned (True,
     \<lparr>rootNode = Some 0, size_t = 2, maxDepth = 1, origin_t = Point3f 0 0 0,
      heap =
        [Some \<lparr>children = [Some 1, None, None, None, None, None, None, Some 2],
               parent = None, parentIndex = - 1, depth = 0, size_n = 2,
               origin_n = Point3f 0 0 0, isLeaf = False, pointList = []\<rparr>,
         Some \<lparr>children = [None, None, None, None, None, None, None, None],
               parent = Some 0, parentIndex = 0, depth = 1, size_n = 1,
               origin_n = Point3f 0 0 0, isLeaf = True, pointList = [0]\<rparr>,
         Some \<lparr>children = [None, None, None, None, None, None, None, None],
               parent = Some 0, parentIndex = 7, depth = 1, size_n = 1,
               origin_n = Point3f 1 1 1, isLeaf = True, pointList = [1]\<rparr>]\<rparr>)"
    by code_simp
  from convertFromPointCloud_returns_true [OF run] run show ?thesis by simp
qed

section \<open>Octant selection\<close>

text \<open>
  C8 (octant code). The child index computed by \<^verbatim>\<open>insertPointRecurse\<close> and \<^verbatim>\<open>index\<close> is
  \<open>xIndex + 2 * yIndex + 4 * zIndex\<close>, each axis index being 0 exactly when the point's
  coordinate is below \<^verbatim>\<open>origin + size / 2\<close> on that axis and 1 otherwise. For the node
  with origin \<open>(0,0,0)\<close> and size 2 the point \<open>(3/2, 1/2, 3/2)\<close> gets index 5: inserted
  into the empty tree over that cube with \<^verbatim>\<open>maxDepth = 1\<close> it lands in the leaf hung into
  slot 5 of the root, where \<^verbatim>\<open>index\<close> finds it.
\<close>

theorem octant_code:
  "childIndex point orig s = xIndex point orig s + 2 * yIndex point orig s + 4 * zIndex point orig s
   \<and> (xIndex point orig s = 0 \<longleftrightarrow> pt_x point < pt_x orig + s / 2)
   \<and> (xIndex point orig s = 1 \<longleftrightarrow> \<not> pt_x point < pt_x orig + s / 2)
   \<and> (yIndex point orig s = 0 \<longleftrightarrow> pt_y point < pt_y orig + s / 2)
   \<and> (yIndex point orig s = 1 \<longleftrightarrow> \<not> pt_y point < pt_y orig + s / 2)
   \<and> (zIndex point orig s = 0 \<longleftrightarrow> pt_z point < pt_z orig + s / 2)
   \<and> (zIndex point orig s = 1 \<longleftrightarrow> \<not> pt_z point < pt_z orig + s / 2)
   \<and> childIndex (Point3f (3/2) (1/2) (3/2)) (Point3f 0 0 0) 2 = 5
   \<and> insertPoint_root 2 (newOctree 1 2 (Point3f 0 0 0)) 0 (Point3f (3/2) (1/2) (3/2)) =
       Returned
         \<lparr>rootNode = Some 0, size_t = 2, maxDepth = 1, origin_t = Point3f 0 0 0,
      heap =
        [Some \<lparr>children = [None, None, None, None, None, Some 1, None, None],
               parent = None, parentIndex = - 1, depth = 0, size_n = 2,
               origin_n = Point3f 0 0 0, isLeaf = False, pointList = []\<rparr>,
         Some \<lparr>children = [None, None, None, None, None, None, None, None],
               parent = Some 0, parentIndex = 5, depth = 1, size_n = 1,
               origin_n = Point3f 1 0 1, isLeaf = True, pointList = [0]\<rparr>]\<rparr>
   \<and> index 2 [0 \<mapsto> Point3f (3/2) (1/2) (3/2)]
         [Some \<lparr>children = [None, None, None, None, None, Some 1, None, None],
               parent = None, parentIndex = - 1, depth = 0, size_n = 2,
               origin_n = Point3f 0 0 0, isLeaf = False, pointList = []\<rparr>,
          Some \<lparr>children = [None, None, None, None, None, None, None, None],
               parent = Some 0, parentIndex = 5, depth = 1, size_n = 1,
               origin_n = Point3f 1 0 1, isLeaf = True, pointList = [0]\<rparr>]
         (Point3f (3/2) (1/2) (3/2)) (Some 0) = Returned (Some 1)"
proof -
  have general:
    "childIndex point orig s = xIndex point orig s + 2 * yIndex point orig s + 4 * zIndex point orig s"
    "xIndex point orig s = 0 \<longleftrightarrow> pt_x point < pt_x orig + s / 2"
    "xIndex point orig s = 1 \<longleftrightarrow> \<not> pt_x point < pt_x orig + s / 2"
    "yIndex point orig s = 0 \<longleftrightarrow> pt_y point < pt_y orig + s / 2"
    "yIndex point orig s = 1 \<longleftrightarrow> \<not> pt_y point < pt_y orig + s / 2"
    "zIndex point orig s = 0 \<longleftrightarrow> pt_z point < pt_z orig + s / 2"
    "zIndex point orig s = 1 \<longleftrightarrow> \<not> pt_z point < pt_z orig + s / 2"
    by (simp_all add: childIndex_def xIndex_def yIndex_def zIndex_def)
  have five: "childIndex (Point3f (3/2) (1/2) (3/2)) (Point3f 0 0 0) 2 = 5"
    by (simp add: childIndex_def xIndex_def yIndex_def zIndex_def)
  have ins: "insertPoint_root 2 (newOctree 1 2 (Point3f 0 0 0)) 0 (Point3f (3/2) (1/2) (3/2)) =
       Returned
         \<lparr>rootNode = Some 0, size_t = 2, maxDepth = 1, origin_t = Point3f 0 0 0,
      heap =
        [Some \<lparr>children = [None, None, None, None, None, Some 1, None, None],
               parent = None, parentIndex = - 1, depth = 0, size_n = 2,
               origin_n = Point3f 0 0 0, isLeaf = False, pointList = []\<rparr>,
         Some \<lparr>children = [None, None, None, None, None, None, None, None],
               parent = Some 0, parentIndex = 5, depth = 1, size_n = 1,
               origin_n = Point3f 1 0 1, isLeaf = True, pointList = [0]\<rparr>]\<rparr>"
    by code_simp
  have idx: "index 2 [0 \<mapsto> Point3f (3/2) (1/2) (3/2)]
         [Some \<lparr>children = [None, None, None, None, None, Some 1, None, None],
               parent = None, parentIndex = - 1, depth = 0, size_n = 2,
               origin_n = Point3f 0 0 0, isLeaf = False, pointList = []\<rparr>,
          Some \<lparr>children = [None, None, None, None, None, None, None, None],
               parent = Some 0, parentIndex = 5, depth = 1, size_n = 1,
               origin_n = Point3f 1 0 1, isLeaf = True, pointList = [0]\<rparr>]
         (Point3f (3/2) (1/2) (3/2)) (Some 0) = Returned (Some 1)"
    by code_simp
  from general five ins idx show ?thesis by blast
qed

lemma childIndex_less: "childIndex point orig s < childNum"
  by (simp add: childIndex_def xIndex_def yIndex_def zIndex_def childNum_def)

text \<open>Both recursions go on in the slot of that index: at a live node with eight slots that
  holds the point in its cube, is not at \<^verbatim>\<open>maxDepth\<close> (for the insertion) or not a leaf
  (for the lookup), and has a child in the slot.\<close>

lemma insertPointRecurse_descends_octant:
  assumes "deref h a = Some node" "isPointInBound point (origin_n node) (size_n node)"
    and "depth node \<noteq> md" "length (children node) = childNum"
    and "children node ! childIndex point (origin_n node) (size_n node) = Some c"
  shows "insertPointRecurse (Suc n) md h a pt point = insertPointRecurse n md h c pt point"
  using assms childIndex_less[of point "origin_n node" "size_n node"] by (simp add: Let_def)

lemma index_descends_octant:
  assumes "deref h a = Some node" "isPointInBound point (origin_n node) (size_n node)"
    and "\<not> isLeaf node" "length (children node) = childNum"
    and "children node ! childIndex point (origin_n node) (size_n node) = Some c"
  shows "index (Suc n) pm h point (Some a) = index n pm h point (Some c)"
  using assms childIndex_less[of point "origin_n node" "size_n node"] by (simp add: Let_def)

section \<open>Traversal and the visitor's result\<close>








section \<open>Lookup after insertion\<close>

text \<open>
  The proofs below use nothing of the arithmetic on coordinates: insertion and lookup
  read the same stored origins and sizes and evaluate the same comparisons.
\<close>

subsection \<open>Reading the entries of a leaf\<close>

lemma pointEq_iff: "pointEq point v \<longleftrightarrow> point = v"
  by (cases point; cases v) (auto simp: pointEq_def)

lemma scanPoints_finds:
  assumes "\<forall>q\<in>set l. pm q \<noteq> None" "pt \<in> set l" "pm pt = Some point"
  shows "scanPoints pm point l = Some True"
  using assms by (induction l) (auto simp: pointEq_iff)

lemma scanPoints_True_entry:
  "scanPoints pm point l = Some True \<Longrightarrow> \<exists>q. q \<in> set l \<and> pm q = Some point"
  by (induction l) (auto simp: pointEq_iff split: option.splits if_splits)

lemma points_alive_entries:
  "points_alive pm h \<Longrightarrow> deref h a = Some node \<Longrightarrow> \<forall>q\<in>set (pointList node). pm q \<noteq> None"
  unfolding points_alive_def by blast

subsection \<open>The store under updates\<close>

lemma node_grows_refl: "node_grows md node node"
  by (simp add: node_grows_def)

lemma node_grows_trans:
  assumes "node_grows md n0 n1" "node_grows md n1 n2"
  shows "node_grows md n0 n2"
proof -
  have eqs: "depth n2 = depth n0" "origin_n n2 = origin_n n0" "size_n n2 = size_n n0"
    "parent n2 = parent n0" "length (children n2) = length (children n0)"
    using assms by (simp_all add: node_grows_def)
  have ch: "children n2 ! i = Some c" if "children n0 ! i = Some c" for i c
  proof -
    from that assms(1) have "children n1 ! i = Some c" unfolding node_grows_def by blast
    with assms(2) show ?thesis unfolding node_grows_def by blast
  qed
  have lf: "isLeaf n0 \<longrightarrow> isLeaf n2" using assms unfolding node_grows_def by blast
  have dp: "isLeaf n2 \<and> \<not> isLeaf n0 \<longrightarrow> depth n0 = md"
  proof (cases "isLeaf n1")
    case True
    then show ?thesis using assms(1) unfolding node_grows_def by blast
  next
    case False
    then have "isLeaf n2 \<longrightarrow> depth n1 = md" using assms(2) unfolding node_grows_def by blast
    moreover have "depth n1 = depth n0" using assms(1) by (simp add: node_grows_def)
    ultimately show ?thesis by simp
  qed
  have pl: "set (pointList n0) \<subseteq> set (pointList n2)"
  proof -
    have "set (pointList n0) \<subseteq> set (pointList n1)" "set (pointList n1) \<subseteq> set (pointList n2)"
      using assms by (simp_all add: node_grows_def)
    then show ?thesis by (rule subset_trans)
  qed
  show ?thesis unfolding node_grows_def using eqs ch lf dp pl by simp
qed

lemma deref_update: "deref (h[a := x]) b = (if b = a \<and> a < length h then x else deref h b)"
  by (auto simp: deref_def)

lemma deref_append: "deref (h @ [x]) b = (if b = length h then x else deref h b)"
  by (auto simp: deref_def nth_append)

lemma deref_Some_less: "deref h a = Some node \<Longrightarrow> a < length h"
  by (auto simp: deref_def split: if_splits)

lemma ins_frame_refl: "ins_frame md d h h"
  by (simp add: ins_frame_def node_grows_refl)

lemma ins_frame_trans:
  assumes "ins_frame md d h h1" "ins_frame md d' h1 h2" "d \<le> d'"
  shows "ins_frame md d h h2"
  unfolding ins_frame_def
proof (intro conjI allI impI)
  show "length h \<le> length h2" using assms by (simp add: ins_frame_def)
next
  fix b node assume b: "deref h b = Some node"
  from assms(1) b obtain n1 where n1: "deref h1 b = Some n1" "node_grows md node n1"
    "depth node < d \<longrightarrow> n1 = node"
    unfolding ins_frame_def by blast
  from assms(2) n1(1) obtain n2 where n2: "deref h2 b = Some n2" "node_grows md n1 n2"
    "depth n1 < d' \<longrightarrow> n2 = n1"
    unfolding ins_frame_def by blast
  have "depth n1 = depth node" using n1(2) by (simp add: node_grows_def)
  then show "\<exists>node'. deref h2 b = Some node' \<and> node_grows md node node' \<and>
           (depth node < d \<longrightarrow> node' = node)"
    using n1 n2 assms(3) node_grows_trans[OF n1(2) n2(2)] by auto
qed

lemma wf_heap_update_same_links:
  assumes wf: "wf_heap md h" and a: "deref h a = Some node"
    and same: "children node' = children node" "depth node' = depth node"
      "parent node' = parent node" "parentIndex node' = parentIndex node"
    and leaf: "isLeaf node' \<longrightarrow> depth node' = md"
  shows "wf_heap md (h[a := Some node'])"
  unfolding wf_heap_def
proof (intro allI impI)
  fix b nb
  let ?h' = "h[a := Some node']"
  assume b: "deref ?h' b = Some nb"
  have al: "a < length h" using a by (rule deref_Some_less)
  define ob where "ob = (if b = a then node else nb)"
  have ob: "deref h b = Some ob" using b a al by (auto simp: deref_update ob_def split: if_splits)
  have wfo: "wf_node md h b ob" using wf ob by (simp add: wf_heap_def)
  have nb: "children nb = children ob" "depth nb = depth ob" "isLeaf nb \<longrightarrow> depth nb = md"
    using b a al same leaf wfo ob by (auto simp: deref_update ob_def wf_node_def split: if_splits)
  show "wf_node md ?h' b nb"
    unfolding wf_node_def
  proof (intro conjI allI impI)
    show "length (children nb) = childNum" using wfo nb by (simp add: wf_node_def)
    show "isLeaf nb \<Longrightarrow> depth nb = md" using nb by simp
    show "\<And>i. depth nb = md \<Longrightarrow> i < childNum \<Longrightarrow> children nb ! i = None"
      using wfo nb by (simp add: wf_node_def)
  next
    fix i c assume ic: "i < childNum \<and> children nb ! i = Some c"
    then obtain cn where cn: "deref h c = Some cn" "depth cn = depth ob + 1"
        "parent cn = Some b" "parentIndex cn = int i"
      using wfo nb unfolding wf_node_def by metis
    show "\<exists>cn. deref ?h' c = Some cn \<and> depth cn = depth nb + 1 \<and> parent cn = Some b \<and> parentIndex cn = int i"
      using cn a al nb same by (cases "c = a") (auto simp: deref_update)
  qed
qed

lemma wf_heap_append:
  assumes wf: "wf_heap md h" and nl: "\<not> isLeaf child" and ch: "children child = replicate 8 None"
  shows "wf_heap md (h @ [Some child])"
  unfolding wf_heap_def
proof (intro allI impI)
  fix b nb
  assume b: "deref (h @ [Some child]) b = Some nb"
  show "wf_node md (h @ [Some child]) b nb"
  proof (cases "b = length h")
    case True
    then have "nb = child" using b by (simp add: deref_append)
    then show ?thesis using nl ch by (auto simp: wf_node_def childNum_def)
  next
    case False
    then have ob: "deref h b = Some nb" using b by (simp add: deref_append)
    then have wfo: "wf_node md h b nb" using wf by (simp add: wf_heap_def)
    show ?thesis unfolding wf_node_def
    proof (intro conjI allI impI)
      show "length (children nb) = childNum" using wfo by (simp add: wf_node_def)
      show "isLeaf nb \<Longrightarrow> depth nb = md" using wfo by (simp add: wf_node_def)
      show "\<And>i. depth nb = md \<Longrightarrow> i < childNum \<Longrightarrow> children nb ! i = None"
        using wfo by (simp add: wf_node_def)
    next
      fix i c assume ic: "i < childNum \<and> children nb ! i = Some c"
      then obtain cn where cn: "deref h c = Some cn" "depth cn = depth nb + 1"
          "parent cn = Some b" "parentIndex cn = int i"
        using wfo unfolding wf_node_def by metis
      have "c \<noteq> length h" using cn(1) deref_Some_less by blast
      then show "\<exists>cn. deref (h @ [Some child]) c = Some cn \<and> depth cn = depth nb + 1 \<and>
            parent cn = Some b \<and> parentIndex cn = int i"
        using cn by (auto simp: deref_append)
    qed
  qed
qed

lemma wf_heap_new_child:
  assumes wf: "wf_heap md h" and a: "deref h a = Some node"
    and ci: "ci < childNum" and nl: "depth node \<noteq> md"
    and child: "child = (newOctreeNode (depth node + 1) s orig (int ci))\<lparr>parent := Some a\<rparr>"
  shows "wf_heap md ((h @ [Some child])[a := Some (node\<lparr>children := (children node)[ci := Some (length h)]\<rparr>)])"
    (is "wf_heap md ?h1")
  unfolding wf_heap_def
proof (intro allI impI)
  fix b nb
  assume b: "deref ?h1 b = Some nb"
  have al: "a < length h" using a by (rule deref_Some_less)
  have wfa: "wf_node md h a node" using wf a by (simp add: wf_heap_def)
  have lc: "length (children node) = childNum" using wfa by (simp add: wf_node_def)
  have dchild: "deref ?h1 (length h) = Some child" using al by (simp add: deref_update deref_append)
  have da: "deref ?h1 a = Some (node\<lparr>children := (children node)[ci := Some (length h)]\<rparr>)"
    using al by (simp add: deref_update)
  have dother: "deref ?h1 c = deref h c" if "c \<noteq> a" "c \<noteq> length h" for c
    using that by (simp add: deref_update deref_append)
  have old_child: "\<exists>cn'. deref ?h1 c = Some cn' \<and> depth cn' = depth cn \<and> parent cn' = parent cn \<and>
        parentIndex cn' = parentIndex cn" if "deref h c = Some cn" for c cn
  proof (cases "c = a")
    case True then show ?thesis using that a da by simp
  next
    case False
    have "c \<noteq> length h" using that deref_Some_less by blast
    then show ?thesis using that False dother by simp
  qed
  show "wf_node md ?h1 b nb"
  proof (cases "b = length h")
    case True
    then have "nb = child" using b dchild by simp
    then show ?thesis using child by (auto simp: wf_node_def childNum_def newOctreeNode_def)
  next
    case nlen: False
    show ?thesis
    proof (cases "b = a")
      case True
      then have nb: "nb = node\<lparr>children := (children node)[ci := Some (length h)]\<rparr>" using b da by simp
      show ?thesis unfolding wf_node_def
      proof (intro conjI allI impI)
        show "length (children nb) = childNum" using nb lc by simp
        show "isLeaf nb \<Longrightarrow> depth nb = md" using nb wfa by (simp add: wf_node_def)
        show "\<And>i. depth nb = md \<Longrightarrow> i < childNum \<Longrightarrow> children nb ! i = None"
          using nb nl by simp
      next
        fix i c assume ic: "i < childNum \<and> children nb ! i = Some c"
        show "\<exists>cn. deref ?h1 c = Some cn \<and> depth cn = depth nb + 1 \<and> parent cn = Some b \<and> parentIndex cn = int i"
        proof (cases "i = ci")
          case True
          then have "c = length h" using ic nb lc ci by simp
          then show ?thesis using dchild child nb True \<open>b = a\<close> by (simp add: newOctreeNode_def)
        next
          case False
          then have "children node ! i = Some c" using ic nb by simp
          then obtain cn where cn: "deref h c = Some cn" "depth cn = depth node + 1"
            "parent cn = Some a" "parentIndex cn = int i"
            using wfa ic unfolding wf_node_def by metis
          from old_child[OF cn(1)] cn nb \<open>b = a\<close> show ?thesis by auto
        qed
      qed
    next
      case False
      then have ob: "deref h b = Some nb" using b nlen dother by simp
      then have wfo: "wf_node md h b nb" using wf by (simp add: wf_heap_def)
      show ?thesis unfolding wf_node_def
      proof (intro conjI allI impI)
        show "length (children nb) = childNum" using wfo by (simp add: wf_node_def)
        show "isLeaf nb \<Longrightarrow> depth nb = md" using wfo by (simp add: wf_node_def)
        show "\<And>i. depth nb = md \<Longrightarrow> i < childNum \<Longrightarrow> children nb ! i = None"
          using wfo by (simp add: wf_node_def)
      next
        fix i c assume ic: "i < childNum \<and> children nb ! i = Some c"
        then obtain cn where cn: "deref h c = Some cn" "depth cn = depth nb + 1"
            "parent cn = Some b" "parentIndex cn = int i"
          using wfo unfolding wf_node_def by metis
        from old_child[OF cn(1)] cn
        show "\<exists>cn. deref ?h1 c = Some cn \<and> depth cn = depth nb + 1 \<and> parent cn = Some b \<and> parentIndex cn = int i"
          by auto
      qed
    qed
  qed
qed

lemma ins_frame_new_child:
  assumes a: "deref h a = Some node" and free: "children node ! ci = None"
  shows "ins_frame md (depth node) h
           ((h @ [x])[a := Some (node\<lparr>children := (children node)[ci := Some c]\<rparr>)])"
    (is "ins_frame md _ h ?h1")
  unfolding ins_frame_def
proof (intro conjI allI impI)
  show "length h \<le> length ?h1" by simp
next
  fix b nb assume b: "deref h b = Some nb"
  have bl: "b \<noteq> length h" using b deref_Some_less by blast
  have al: "a < length h" using a by (rule deref_Some_less)
  show "\<exists>node'. deref ?h1 b = Some node' \<and> node_grows md nb node' \<and>
      (depth nb < depth node \<longrightarrow> node' = nb)"
  proof (cases "b = a")
    case True
    then have "nb = node" using a b by simp
    moreover have "deref ?h1 a = Some (node\<lparr>children := (children node)[ci := Some c]\<rparr>)"
      using al by (simp add: deref_update)
    moreover have "node_grows md node (node\<lparr>children := (children node)[ci := Some c]\<rparr>)"
      using free by (auto simp: node_grows_def) (metis nth_list_update_neq option.distinct(1))
    ultimately show ?thesis using True by simp
  next
    case False
    then show ?thesis using b bl by (simp add: deref_update deref_append node_grows_refl)
  qed
qed

lemma ins_frame_leaf_update:
  assumes a: "deref h a = Some node" and d: "depth node = md"
  shows "ins_frame md (depth node) h
           (h[a := Some (node\<lparr>isLeaf := True, pointList := pointList node @ [pt]\<rparr>)])"
  unfolding ins_frame_def
  using a d by (auto simp: deref_update node_grows_def)


lemma ins_frame_mono: "ins_frame md d' h h' \<Longrightarrow> d \<le> d' \<Longrightarrow> ins_frame md d h h'"
  using ins_frame_trans[OF ins_frame_refl, of md d' h h' d] by simp

subsection \<open>Insertion keeps the shape and finds its point\<close>

lemma insertPointRecurse_inv:
  assumes "wf_heap md h" "deref h a = Some node"
    and "insertPointRecurse n md h a pt point = Returned h' \<or>
         insertPointRecurse n md h a pt point = Raised e h'"
  shows "wf_heap md h' \<and> ins_frame md (depth node) h h'"
  using assms
proof (induction n arbitrary: h a node)
  case 0
  then show ?case by simp
next
  case (Suc n)
  note wf = Suc.prems(1) and a = Suc.prems(2) and run = Suc.prems(3)
  have wfa: "wf_node md h a node" using wf a by (simp add: wf_heap_def)
  have lc: "length (children node) = childNum" using wfa by (simp add: wf_node_def)
  let ?ci = "childIndex point (origin_n node) (size_n node)"
  have ci: "?ci < childNum" by (rule childIndex_less)
  show ?case
  proof (cases "isPointInBound point (origin_n node) (size_n node)")
    case False
    then have "h' = h" using run a by simp
    then show ?thesis using wf by (simp add: ins_frame_refl)
  next
    case inb: True
    show ?thesis
    proof (cases "depth node = md")
      case True
      then have h': "h' = h[a := Some (node\<lparr>isLeaf := True, pointList := pointList node @ [pt]\<rparr>)]"
        using run a inb by auto
      show ?thesis unfolding h'
        using wf_heap_update_same_links[OF wf a, of "node\<lparr>isLeaf := True, pointList := pointList node @ [pt]\<rparr>"]
          ins_frame_leaf_update[OF a True] True by simp
    next
      case nd: False
      show ?thesis
      proof (cases "children node ! ?ci")
        case (Some c)
        then obtain cn where cn: "deref h c = Some cn" "depth cn = depth node + 1"
          using wfa ci unfolding wf_node_def by metis
        have rec: "insertPointRecurse n md h c pt point = Returned h' \<or>
            insertPointRecurse n md h c pt point = Raised e h'"
          using run a inb nd Some lc ci by (simp add: Let_def)
        from Suc.IH[OF wf cn(1) rec] have "wf_heap md h'" "ins_frame md (depth cn) h h'" by simp_all
        then show ?thesis using cn(2) ins_frame_mono[of md "depth cn" h h' "depth node"] by simp
      next
        case None
        define child where "child = (newOctreeNode (depth node + 1) (size_n node / 2)
                                  (childOrigin point (origin_n node) (size_n node)) (int ?ci))
                                \<lparr>parent := Some a\<rparr>"
        define h1 where "h1 = (h @ [Some child])
                              [a := Some (node\<lparr>children := (children node)[?ci := Some (length h)]\<rparr>)]"
        have rec: "insertPointRecurse n md h1 (length h) pt point = Returned h' \<or>
            insertPointRecurse n md h1 (length h) pt point = Raised e h'"
          using run a inb nd None lc ci by (simp add: Let_def h1_def child_def)
        have wf1: "wf_heap md h1" unfolding h1_def
          by (rule wf_heap_new_child[OF wf a ci nd child_def])
        have al: "a < length h" using a by (rule deref_Some_less)
        have dc: "deref h1 (length h) = Some child"
          using al by (simp add: h1_def deref_update deref_append)
        have depc: "depth child = depth node + 1" by (simp add: child_def newOctreeNode_def)
        from Suc.IH[OF wf1 dc rec] have r: "wf_heap md h'" "ins_frame md (depth child) h1 h'" by simp_all
        have f1: "ins_frame md (depth node) h h1" unfolding h1_def by (rule ins_frame_new_child[OF a None])
        have "ins_frame md (depth node) h h'"
          using ins_frame_trans[OF f1 r(2)] depc by simp
        then show ?thesis using r(1) by simp
      qed
    qed
  qed
qed

lemma insertPointRecurse_found:
  assumes "wf_heap md h" "deref h a = Some node"
    and "insertPointRecurse n md h a pt point = Returned h'"
    and "points_alive pm h'" "pm pt = Some point"
  shows "\<exists>leaf ln. index n pm h' point (Some a) = Returned (Some leaf) \<and> deref h' leaf = Some ln \<and>
           isLeaf ln \<and> pt \<in> set (pointList ln)"
  using assms
proof (induction n arbitrary: h a node)
  case 0
  then show ?case by simp
next
  case (Suc n)
  note wf = Suc.prems(1) and a = Suc.prems(2) and run = Suc.prems(3)
    and alive = Suc.prems(4) and val = Suc.prems(5)
  have wfa: "wf_node md h a node" using wf a by (simp add: wf_heap_def)
  have lc: "length (children node) = childNum" using wfa by (simp add: wf_node_def)
  have al: "a < length h" using a by (rule deref_Some_less)
  let ?ci = "childIndex point (origin_n node) (size_n node)"
  have ci: "?ci < childNum" by (rule childIndex_less)
  have inb: "isPointInBound point (origin_n node) (size_n node)"
    using run a by (auto split: if_splits)
  show ?case
  proof (cases "depth node = md")
    case True
    let ?node' = "node\<lparr>isLeaf := True, pointList := pointList node @ [pt]\<rparr>"
    have h': "h' = h[a := Some ?node']"
      using run a inb True by auto
    have d': "deref h' a = Some ?node'" unfolding h' using al by (simp add: deref_update)
    have "scanPoints pm point (pointList ?node') = Some True"
      by (rule scanPoints_finds[OF points_alive_entries[OF alive d'] _ val]) simp
    then have "index (Suc n) pm h' point (Some a) = Returned (Some a)" using d' by simp
    then show ?thesis using d' by simp
  next
    case nd: False
    then have nleaf: "\<not> isLeaf node" using wfa by (auto simp: wf_node_def)
    show ?thesis
    proof (cases "children node ! ?ci")
      case (Some c)
      then obtain cn where cn: "deref h c = Some cn" "depth cn = depth node + 1"
        using wfa ci unfolding wf_node_def by metis
      have rec: "insertPointRecurse n md h c pt point = Returned h'"
        using run a inb nd Some lc ci by (simp add: Let_def)
      from insertPointRecurse_inv[OF wf cn(1), of n pt point h'] rec
      have fr: "ins_frame md (depth cn) h h'" by simp
      have a': "deref h' a = Some node" using fr a cn(2) unfolding ins_frame_def by fastforce
      from Suc.IH[OF wf cn(1) rec alive val] obtain leaf ln where
        l: "index n pm h' point (Some c) = Returned (Some leaf)" "deref h' leaf = Some ln"
           "isLeaf ln" "pt \<in> set (pointList ln)" by blast
      have "index (Suc n) pm h' point (Some a) = Returned (Some leaf)"
        using a' nleaf inb Some lc ci l(1) by (simp add: Let_def)
      then show ?thesis using l by blast
    next
      case None
      define child where "child = (newOctreeNode (depth node + 1) (size_n node / 2)
                                (childOrigin point (origin_n node) (size_n node)) (int ?ci))
                              \<lparr>parent := Some a\<rparr>"
      define node1 where "node1 = node\<lparr>children := (children node)[?ci := Some (length h)]\<rparr>"
      define h1 where "h1 = (h @ [Some child])[a := Some node1]"
      have rec: "insertPointRecurse n md h1 (length h) pt point = Returned h'"
        using run a inb nd None lc ci by (simp add: Let_def h1_def child_def node1_def)
      have wf1: "wf_heap md h1" unfolding h1_def node1_def
        by (rule wf_heap_new_child[OF wf a ci nd child_def])
      have dc: "deref h1 (length h) = Some child"
        using al by (simp add: h1_def deref_update deref_append)
      have da: "deref h1 a = Some node1" using al by (simp add: h1_def deref_update)
      have depc: "depth child = depth node + 1" by (simp add: child_def newOctreeNode_def)
      from insertPointRecurse_inv[OF wf1 dc, of n pt point h'] rec
      have fr: "ins_frame md (depth child) h1 h'" by simp
      have a': "deref h' a = Some node1"
        using fr da depc unfolding ins_frame_def by (fastforce simp: node1_def)
      from Suc.IH[OF wf1 dc rec alive val] obtain leaf ln where
        l: "index n pm h' point (Some (length h)) = Returned (Some leaf)" "deref h' leaf = Some ln"
           "isLeaf ln" "pt \<in> set (pointList ln)" by blast
      have "index (Suc n) pm h' point (Some a) = Returned (Some leaf)"
        using a' nleaf inb lc ci l(1) by (simp add: Let_def node1_def)
      then show ?thesis using l by blast
    qed
  qed
qed

lemma ins_frame_alive:
  assumes "ins_frame md d h h'" "points_alive pm h'"
  shows "points_alive pm h"
  unfolding points_alive_def
proof (intro allI impI)
  fix a node q assume q: "deref h a = Some node \<and> q \<in> set (pointList node)"
  then obtain node' where "deref h' a = Some node'" "set (pointList node) \<subseteq> set (pointList node')"
    using assms(1) unfolding ins_frame_def node_grows_def by blast
  then show "pm q \<noteq> None" using assms(2) q unfolding points_alive_def by blast
qed

lemma ins_frame_entry:
  assumes "ins_frame md d h h'" "deref h leaf = Some lf" "isLeaf lf" "pt \<in> set (pointList lf)"
  shows "\<exists>ln'. deref h' leaf = Some ln' \<and> isLeaf ln' \<and> pt \<in> set (pointList ln')"
  using assms unfolding ins_frame_def node_grows_def by blast

lemma parents_ok_append:
  assumes "parents_ok md h" "parent child = None"
  shows "parents_ok md (h @ [Some child])"
  unfolding parents_ok_def
proof (intro allI impI)
  fix c cn pa assume c: "deref (h @ [Some child]) c = Some cn \<and> parent cn = Some pa"
  then have "c \<noteq> length h" using assms(2) by (auto simp: deref_append)
  then have "deref h c = Some cn" using c by (simp add: deref_append)
  then obtain pn where pn: "deref h pa = Some pn" "depth pn \<noteq> md"
    using assms(1) c unfolding parents_ok_def by blast
  have "pa \<noteq> length h" using pn(1) deref_Some_less by blast
  then show "\<exists>pn. deref (h @ [Some child]) pa = Some pn \<and> depth pn \<noteq> md"
    using pn by (simp add: deref_append)
qed

lemma parents_ok_update_same:
  assumes ok: "parents_ok md h" and a: "deref h a = Some node"
    and same: "parent node' = parent node" "depth node' = depth node"
  shows "parents_ok md (h[a := Some node'])"
  unfolding parents_ok_def
proof (intro allI impI)
  fix c cn pa assume c: "deref (h[a := Some node']) c = Some cn \<and> parent cn = Some pa"
  have al: "a < length h" using a by (rule deref_Some_less)
  have "\<exists>cn0. deref h c = Some cn0 \<and> parent cn0 = Some pa"
    using c a al same by (cases "c = a") (auto simp: deref_update)
  then obtain pn where pn: "deref h pa = Some pn" "depth pn \<noteq> md"
    using ok unfolding parents_ok_def by blast
  show "\<exists>pn. deref (h[a := Some node']) pa = Some pn \<and> depth pn \<noteq> md"
    using pn a al same by (cases "pa = a") (auto simp: deref_update)
qed

lemma parents_ok_new_child:
  assumes ok: "parents_ok md h" and a: "deref h a = Some node" and nd: "depth node \<noteq> md"
    and child: "parent child = Some a"
  shows "parents_ok md ((h @ [Some child])[a := Some (node\<lparr>children := cs\<rparr>)])"
    (is "parents_ok md ?h1")
  unfolding parents_ok_def
proof (intro allI impI)
  fix c cn pa assume c: "deref ?h1 c = Some cn \<and> parent cn = Some pa"
  have al: "a < length h" using a by (rule deref_Some_less)
  have da: "deref ?h1 a = Some (node\<lparr>children := cs\<rparr>)" using al by (simp add: deref_update)
  have keep: "\<exists>pn'. deref ?h1 b = Some pn' \<and> depth pn' = depth pn" if "deref h b = Some pn" for b pn
  proof (cases "b = a")
    case True then show ?thesis using that a da by simp
  next
    case False
    have "b \<noteq> length h" using that deref_Some_less by blast
    then show ?thesis using that False by (simp add: deref_update deref_append)
  qed
  show "\<exists>pn. deref ?h1 pa = Some pn \<and> depth pn \<noteq> md"
  proof (cases "c = length h")
    case True
    then have "cn = child" using c al by (simp add: deref_update deref_append)
    then have "pa = a" using c child by simp
    then show ?thesis using da nd by simp
  next
    case False
    have "\<exists>cn0. deref h c = Some cn0 \<and> parent cn0 = Some pa"
      using c a al False by (cases "c = a") (auto simp: deref_update deref_append)
    then obtain pn where pn: "deref h pa = Some pn" "depth pn \<noteq> md"
      using ok unfolding parents_ok_def by blast
    from keep[OF pn(1)] pn(2) show ?thesis by auto
  qed
qed

lemma insertPointRecurse_parents_ok:
  assumes "wf_heap md h" "parents_ok md h" "deref h a = Some node"
    and "insertPointRecurse n md h a pt point = Returned h' \<or>
         insertPointRecurse n md h a pt point = Raised e h'"
  shows "parents_ok md h'"
  using assms
proof (induction n arbitrary: h a node)
  case 0
  then show ?case by simp
next
  case (Suc n)
  note wf = Suc.prems(1) and ok = Suc.prems(2) and a = Suc.prems(3) and run = Suc.prems(4)
  have wfa: "wf_node md h a node" using wf a by (simp add: wf_heap_def)
  have lc: "length (children node) = childNum" using wfa by (simp add: wf_node_def)
  let ?ci = "childIndex point (origin_n node) (size_n node)"
  have ci: "?ci < childNum" by (rule childIndex_less)
  show ?case
  proof (cases "isPointInBound point (origin_n node) (size_n node)")
    case False
    then have "h' = h" using run a by simp
    then show ?thesis using ok by simp
  next
    case inb: True
    show ?thesis
    proof (cases "depth node = md")
      case True
      then have h': "h' = h[a := Some (node\<lparr>isLeaf := True, pointList := pointList node @ [pt]\<rparr>)]"
        using run a inb by auto
      show ?thesis unfolding h' by (rule parents_ok_update_same[OF ok a]) simp_all
    next
      case nd: False
      show ?thesis
      proof (cases "children node ! ?ci")
        case (Some c)
        then obtain cn where cn: "deref h c = Some cn"
          using wfa ci unfolding wf_node_def by metis
        have rec: "insertPointRecurse n md h c pt point = Returned h' \<or>
            insertPointRecurse n md h c pt point = Raised e h'"
          using run a inb nd Some lc ci by (simp add: Let_def)
        from Suc.IH[OF wf ok cn rec] show ?thesis .
      next
        case None
        define child where "child = (newOctreeNode (depth node + 1) (size_n node / 2)
                                  (childOrigin point (origin_n node) (size_n node)) (int ?ci))
                                \<lparr>parent := Some a\<rparr>"
        define h1 where "h1 = (h @ [Some child])
                              [a := Some (node\<lparr>children := (children node)[?ci := Some (length h)]\<rparr>)]"
        have rec: "insertPointRecurse n md h1 (length h) pt point = Returned h' \<or>
            insertPointRecurse n md h1 (length h) pt point = Raised e h'"
          using run a inb nd None lc ci by (simp add: Let_def h1_def child_def)
        have wf1: "wf_heap md h1" unfolding h1_def
          by (rule wf_heap_new_child[OF wf a ci nd child_def])
        have ok1: "parents_ok md h1" unfolding h1_def
          by (rule parents_ok_new_child[OF ok a nd]) (simp add: child_def)
        have al: "a < length h" using a by (rule deref_Some_less)
        have dc: "deref h1 (length h) = Some child"
          using al by (simp add: h1_def deref_update deref_append)
        from Suc.IH[OF wf1 ok1 dc rec] show ?thesis .
      qed
    qed
  qed
qed

lemma insertPointRecurse_live:
  assumes "insertPointRecurse n md h a pt point = Returned h' \<or>
           insertPointRecurse n md h a pt point = Raised e h'"
  shows "\<exists>node. deref h a = Some node"
  using assms by (cases n; cases "deref h a") auto

lemma insertPointRecurse_in_bound:
  assumes "insertPointRecurse n md h a pt point = Returned h'" "deref h a = Some node"
  shows "isPointInBound point (origin_n node) (size_n node)"
  using assms by (cases n) (auto split: if_splits)

lemma index_fuel_mono:
  "index n pm h point node = Returned r \<Longrightarrow> n \<le> m \<Longrightarrow> index m pm h point node = Returned r"
proof (induction n arbitrary: m node)
  case 0
  then show ?case by simp
next
  case (Suc n)
  then obtain m' where m: "m = Suc m'" "n \<le> m'" by (cases m) auto
  show ?case
  proof (cases node)
    case None
    then show ?thesis using Suc.prems m by simp
  next
    case (Some a)
    show ?thesis using Suc.prems(1) Suc.IH[OF _ m(2)] m unfolding Some
      by (auto simp: Let_def split: option.splits if_splits)
  qed
qed

lemma insertPoint_root_wf:
  assumes wf: "wf_tree t"
    and run: "insertPoint_root n t pt point = Returned t' \<or> insertPoint_root n t pt point = Raised e t'"
  shows "wf_tree t'"
proof -
  define a where "a = (case rootNode t of None \<Rightarrow> length (heap t) | Some a \<Rightarrow> a)"
  define h where "h = (case rootNode t of
       None \<Rightarrow> heap t @ [Some (newOctreeNode 0 (size_t t) (origin_t t) (- 1))] | Some a \<Rightarrow> heap t)"
  have ip: "insertPoint n t (rootNode t) pt point =
      (case insertPointRecurse n (maxDepth t) h a pt point of
           Returned h' \<Rightarrow> Returned (Some a, h')
         | Raised e h' \<Rightarrow> Raised e (Some a, h')
         | Undefined \<Rightarrow> Undefined
         | NoFuel \<Rightarrow> NoFuel)"
    by (cases "rootNode t") (simp_all add: insertPoint_def a_def h_def cong: outcome.case_cong)
  from run obtain h' where rec: "insertPointRecurse n (maxDepth t) h a pt point = Returned h' \<or>
         insertPointRecurse n (maxDepth t) h a pt point = Raised e h'"
    and t': "t' = t\<lparr>rootNode := Some a, heap := h'\<rparr>"
    unfolding insertPoint_root_def ip by (auto split: outcome.splits)
  from insertPointRecurse_live[OF rec] obtain node where node: "deref h a = Some node" by blast
  have wfh: "wf_heap (maxDepth t) h"
    using wf by (auto simp: h_def wf_tree_def newOctreeNode_def intro!: wf_heap_append split: option.splits)
  have okh: "parents_ok (maxDepth t) h"
    using wf by (auto simp: h_def wf_tree_def newOctreeNode_def intro!: parents_ok_append split: option.splits)
  have link: "origin_n node = origin_t t \<and> size_n node = size_t t \<and> parent node = None"
    using wf node by (auto simp: h_def a_def wf_tree_def deref_append newOctreeNode_def split: option.splits)
  from insertPointRecurse_inv[OF wfh node rec] have r: "wf_heap (maxDepth t) h'" "ins_frame (maxDepth t) (depth node) h h'"
    by simp_all
  from insertPointRecurse_parents_ok[OF wfh okh node rec] have ok': "parents_ok (maxDepth t) h'" .
  from r(2) node obtain node' where "deref h' a = Some node'" "origin_n node' = origin_n node"
      "size_n node' = size_n node" "parent node' = parent node"
    unfolding ins_frame_def node_grows_def by blast
  then show ?thesis using r(1) ok' link by (simp add: wf_tree_def t')
qed

lemma insertPoint_root_frame:
  assumes wf: "wf_tree t"
    and run: "insertPoint_root n t pt point = Returned t' \<or> insertPoint_root n t pt point = Raised e t'"
  shows "\<exists>d. ins_frame (maxDepth t) d (heap t) (heap t') \<and>
      origin_t t' = origin_t t \<and> size_t t' = size_t t \<and> maxDepth t' = maxDepth t \<and>
      (rootNode t \<noteq> None \<longrightarrow> rootNode t' = rootNode t)"
proof -
  define a where "a = (case rootNode t of None \<Rightarrow> length (heap t) | Some a \<Rightarrow> a)"
  define h where "h = (case rootNode t of
       None \<Rightarrow> heap t @ [Some (newOctreeNode 0 (size_t t) (origin_t t) (- 1))] | Some a \<Rightarrow> heap t)"
  have ip: "insertPoint n t (rootNode t) pt point =
      (case insertPointRecurse n (maxDepth t) h a pt point of
           Returned h' \<Rightarrow> Returned (Some a, h')
         | Raised e h' \<Rightarrow> Raised e (Some a, h')
         | Undefined \<Rightarrow> Undefined
         | NoFuel \<Rightarrow> NoFuel)"
    by (cases "rootNode t") (simp_all add: insertPoint_def a_def h_def cong: outcome.case_cong)
  from run obtain h' where rec: "insertPointRecurse n (maxDepth t) h a pt point = Returned h' \<or>
         insertPointRecurse n (maxDepth t) h a pt point = Raised e h'"
    and t': "t' = t\<lparr>rootNode := Some a, heap := h'\<rparr>"
    unfolding insertPoint_root_def ip by (auto split: outcome.splits)
  from insertPointRecurse_live[OF rec] obtain node where node: "deref h a = Some node" by blast
  have wfh: "wf_heap (maxDepth t) h"
    using wf by (auto simp: h_def wf_tree_def newOctreeNode_def intro!: wf_heap_append split: option.splits)
  from insertPointRecurse_inv[OF wfh node rec]
  have fr: "ins_frame (maxDepth t) (depth node) h h'" by simp
  have f0: "ins_frame (maxDepth t) (depth node) (heap t) h"
    unfolding ins_frame_def h_def
    by (cases "rootNode t") (auto simp: deref_append node_grows_refl dest: deref_Some_less)
  have "ins_frame (maxDepth t) (depth node) (heap t) h'"
    by (rule ins_frame_trans[OF f0 fr]) simp
  then show ?thesis by (auto simp: t' a_def)
qed

lemma insertPoint_root_found:
  assumes wf: "wf_tree t"
    and run: "insertPoint_root n t pt point = Returned t'"
    and alive: "points_alive pm (heap t')" and val: "pm pt = Some point"
  shows "\<exists>leaf ln. index n pm (heap t') point (rootNode t') = Returned (Some leaf) \<and>
           isPointInBound_tree t' point \<and>
           deref (heap t') leaf = Some ln \<and> isLeaf ln \<and> pt \<in> set (pointList ln)"
proof -
  define a where "a = (case rootNode t of None \<Rightarrow> length (heap t) | Some a \<Rightarrow> a)"
  define h where "h = (case rootNode t of
       None \<Rightarrow> heap t @ [Some (newOctreeNode 0 (size_t t) (origin_t t) (- 1))] | Some a \<Rightarrow> heap t)"
  have ip: "insertPoint n t (rootNode t) pt point =
      (case insertPointRecurse n (maxDepth t) h a pt point of
           Returned h' \<Rightarrow> Returned (Some a, h')
         | Raised e h' \<Rightarrow> Raised e (Some a, h')
         | Undefined \<Rightarrow> Undefined
         | NoFuel \<Rightarrow> NoFuel)"
    by (cases "rootNode t") (simp_all add: insertPoint_def a_def h_def cong: outcome.case_cong)
  from run obtain h' where rec: "insertPointRecurse n (maxDepth t) h a pt point = Returned h'"
    and t': "t' = t\<lparr>rootNode := Some a, heap := h'\<rparr>"
    unfolding insertPoint_root_def ip by (auto split: outcome.splits)
  from insertPointRecurse_live[of n "maxDepth t" h a pt point h'] rec
  obtain node where node: "deref h a = Some node" by blast
  have wfh: "wf_heap (maxDepth t) h"
    using wf by (auto simp: h_def wf_tree_def newOctreeNode_def intro!: wf_heap_append split: option.splits)
  have link: "origin_n node = origin_t t \<and> size_n node = size_t t"
    using wf node by (auto simp: h_def a_def wf_tree_def deref_append newOctreeNode_def split: option.splits)
  have inb: "isPointInBound_tree t' point"
    using insertPointRecurse_in_bound[OF rec node] link by (simp add: isPointInBound_tree_def t')
  have alive': "points_alive pm h'" using alive by (simp add: t')
  from insertPointRecurse_found[OF wfh node rec alive' val] inb show ?thesis by (simp add: t')
qed

subsection \<open>Deletion keeps the shape\<close>

lemma wf_heap_detach_free:
  assumes wf: "wf_heap md h" and a: "deref h a = Some node"
    and pa: "parent node = Some pa" and dpa: "deref h pa = Some pnode"
    and pi: "0 \<le> parentIndex node" "parentIndex node < int (length (children pnode))"
  shows "wf_heap md ((h[pa := Some (pnode\<lparr>children :=
           (children pnode)[nat (parentIndex node) := None]\<rparr>)])[a := None])"
    (is "wf_heap md ?h2")
  unfolding wf_heap_def
proof (intro allI impI)
  fix b nb
  assume b: "deref ?h2 b = Some nb"
  let ?k = "nat (parentIndex node)"
  let ?pnode' = "pnode\<lparr>children := (children pnode)[?k := None]\<rparr>"
  have al: "a < length h" using a by (rule deref_Some_less)
  have pl: "pa < length h" using dpa by (rule deref_Some_less)
  have ba: "b \<noteq> a" using b al by (auto simp: deref_update)
  have k: "?k < length (children pnode)" using pi by simp
  have d2: "deref ?h2 c = (if c = a then None else if c = pa then Some ?pnode' else deref h c)" for c
    using al pl by (simp add: deref_update)
  have survive: "\<exists>cn'. deref ?h2 c = Some cn' \<and> depth cn' = depth cn \<and> parent cn' = parent cn \<and>
      parentIndex cn' = parentIndex cn" if "deref h c = Some cn" "c \<noteq> a" for c cn
    using that dpa d2[of c] by (cases "c = pa") auto
  show "wf_node md ?h2 b nb"
  proof (cases "b = pa")
    case True
    then have nb: "nb = ?pnode'" using b ba by (simp add: d2)
    have wfp: "wf_node md h pa pnode" using wf dpa by (simp add: wf_heap_def)
    show ?thesis unfolding wf_node_def
    proof (intro conjI allI impI)
      show "length (children nb) = childNum" using wfp nb by (simp add: wf_node_def)
      show "isLeaf nb \<Longrightarrow> depth nb = md" using wfp nb by (simp add: wf_node_def)
      show "\<And>i. depth nb = md \<Longrightarrow> i < childNum \<Longrightarrow> children nb ! i = None"
        using wfp nb k by (auto simp: wf_node_def nth_list_update)
    next
      fix i c assume ic: "i < childNum \<and> children nb ! i = Some c"
      have ik: "i \<noteq> ?k" using ic nb k by auto
      then have "children pnode ! i = Some c" using ic nb by simp
      then obtain cn where cn: "deref h c = Some cn" "depth cn = depth pnode + 1"
        "parent cn = Some pa" "parentIndex cn = int i"
        using wfp ic unfolding wf_node_def by metis
      have "c \<noteq> a"
      proof
        assume "c = a"
        then have "parentIndex node = int i" using cn a by simp
        then show False using ik by simp
      qed
      from survive[OF cn(1) this] cn nb True
      show "\<exists>cn. deref ?h2 c = Some cn \<and> depth cn = depth nb + 1 \<and> parent cn = Some b \<and>
          parentIndex cn = int i" by auto
    qed
  next
    case False
    then have ob: "deref h b = Some nb" using b ba by (simp add: d2)
    then have wfo: "wf_node md h b nb" using wf by (simp add: wf_heap_def)
    show ?thesis unfolding wf_node_def
    proof (intro conjI allI impI)
      show "length (children nb) = childNum" using wfo by (simp add: wf_node_def)
      show "isLeaf nb \<Longrightarrow> depth nb = md" using wfo by (simp add: wf_node_def)
      show "\<And>i. depth nb = md \<Longrightarrow> i < childNum \<Longrightarrow> children nb ! i = None"
        using wfo by (simp add: wf_node_def)
    next
      fix i c assume ic: "i < childNum \<and> children nb ! i = Some c"
      then obtain cn where cn: "deref h c = Some cn" "depth cn = depth nb + 1"
          "parent cn = Some b" "parentIndex cn = int i"
        using wfo unfolding wf_node_def by metis
      have "c \<noteq> a"
      proof
        assume "c = a"
        then have "parent node = Some b" using cn a by simp
        then show False using pa False by simp
      qed
      from survive[OF cn(1) this] cn
      show "\<exists>cn. deref ?h2 c = Some cn \<and> depth cn = depth nb + 1 \<and> parent cn = Some b \<and>
          parentIndex cn = int i" by auto
    qed
  qed
qed

lemma del_frame_refl: "del_frame h h"
  by (simp add: del_frame_def)

lemma del_frame_trans: "del_frame h h1 \<Longrightarrow> del_frame h1 h2 \<Longrightarrow> del_frame h h2"
  unfolding del_frame_def by (metis (no_types, lifting))

lemma del_frame_detach_free:
  assumes "deref h pa = Some pnode"
  shows "del_frame h ((h[pa := Some (pnode\<lparr>children := cs\<rparr>)])[a := None])"
  unfolding del_frame_def using assms by (auto simp: deref_update split: if_splits)

lemma deletePointRecurse_inv:
  assumes "wf_heap md h" "deletePointRecurse n h node = Returned (b, h')"
  shows "wf_heap md h' \<and> del_frame h h'"
  using assms
proof (induction n arbitrary: h node b)
  case 0
  then show ?case by simp
next
  case (Suc n)
  note wf = Suc.prems(1) and run = Suc.prems(2)
  show ?case
  proof (cases node)
    case None
    then show ?thesis using run wf by (simp add: del_frame_refl)
  next
    case (Some a)
    then obtain nd where nd: "deref h a = Some nd"
      using run by (cases "deref h a") auto
    show ?thesis
    proof (cases "isLeaf nd")
      case leaf: True
      show ?thesis
      proof (cases "pointList nd = []")
        case True
        then show ?thesis using run wf Some nd leaf by (simp add: del_frame_refl)
      next
        case False
        then obtain pa where pa: "parent nd = Some pa"
          using run Some nd leaf by (cases "parent nd") auto
        then obtain pnode where pnode: "deref h pa = Some pnode"
          using run Some nd leaf False by (cases "deref h pa") auto
        have pi: "0 \<le> parentIndex nd" "parentIndex nd < int (length (children pnode))"
          using run Some nd leaf False pa pnode by (auto split: if_splits)
        let ?h2 = "(h[pa := Some (pnode\<lparr>children :=
           (children pnode)[nat (parentIndex nd) := None]\<rparr>)])[a := None]"
        have rec: "deletePointRecurse n ?h2 (Some pa) = Returned (b, h')"
          using run Some nd leaf False pa pnode pi by (simp add: Let_def)
        have wf2: "wf_heap md ?h2" by (rule wf_heap_detach_free[OF wf nd pa pnode pi])
        from Suc.IH[OF wf2 rec] del_frame_detach_free[OF pnode]
        show ?thesis using del_frame_trans by blast
      qed
    next
      case False
      show ?thesis
      proof (cases "list_ex (\<lambda>c. c \<noteq> None) (take childNum (children nd))")
        case True
        then show ?thesis using run wf Some nd False by (simp add: del_frame_refl)
      next
        case nolive: False
        then have rec: "deletePointRecurse n h (parent nd) = Returned (b, h')"
          using run Some nd False by (simp split: if_splits)
        from Suc.IH[OF wf rec] show ?thesis .
      qed
    qed
  qed
qed

lemma parents_ok_detach_free:
  assumes wf: "wf_heap md h" and ok: "parents_ok md h"
    and a: "deref h a = Some node" and leaf: "isLeaf node" and dpa: "deref h pa = Some pnode"
  shows "parents_ok md ((h[pa := Some (pnode\<lparr>children := cs\<rparr>)])[a := None])"
    (is "parents_ok md ?h2")
  unfolding parents_ok_def
proof (intro allI impI)
  fix c cn x assume c: "deref ?h2 c = Some cn \<and> parent cn = Some x"
  have al: "a < length h" using a by (rule deref_Some_less)
  have pl: "pa < length h" using dpa by (rule deref_Some_less)
  have da: "depth node = md" using wf a leaf by (simp add: wf_heap_def wf_node_def)
  have d2: "deref ?h2 b = (if b = a then None else if b = pa then Some (pnode\<lparr>children := cs\<rparr>)
      else deref h b)" for b
    using al pl by (simp add: deref_update)
  have "\<exists>cn0. deref h c = Some cn0 \<and> parent cn0 = Some x"
    using c dpa d2[of c] by (cases "c = a"; cases "c = pa") auto
  then obtain pn where pn: "deref h x = Some pn" "depth pn \<noteq> md"
    using ok unfolding parents_ok_def by blast
  have "x \<noteq> a" using pn a da by auto
  then show "\<exists>pn. deref ?h2 x = Some pn \<and> depth pn \<noteq> md"
    using pn dpa d2[of x] by (cases "x = pa") auto
qed

lemma deletePointRecurse_parents_ok:
  assumes "wf_heap md h" "parents_ok md h" "deletePointRecurse n h node = Returned (b, h')"
  shows "parents_ok md h'"
  using assms
proof (induction n arbitrary: h node b)
  case 0
  then show ?case by simp
next
  case (Suc n)
  note wf = Suc.prems(1) and ok = Suc.prems(2) and run = Suc.prems(3)
  show ?case
  proof (cases node)
    case None
    then show ?thesis using run ok by simp
  next
    case (Some a)
    then obtain nd where nd: "deref h a = Some nd"
      using run by (cases "deref h a") auto
    show ?thesis
    proof (cases "isLeaf nd")
      case leaf: True
      show ?thesis
      proof (cases "pointList nd = []")
        case True
        then show ?thesis using run ok Some nd leaf by simp
      next
        case False
        then obtain pa where pa: "parent nd = Some pa"
          using run Some nd leaf by (cases "parent nd") auto
        then obtain pnode where pnode: "deref h pa = Some pnode"
          using run Some nd leaf False by (cases "deref h pa") auto
        have pi: "0 \<le> parentIndex nd" "parentIndex nd < int (length (children pnode))"
          using run Some nd leaf False pa pnode by (auto split: if_splits)
        let ?h2 = "(h[pa := Some (pnode\<lparr>children :=
           (children pnode)[nat (parentIndex nd) := None]\<rparr>)])[a := None]"
        have rec: "deletePointRecurse n ?h2 (Some pa) = Returned (b, h')"
          using run Some nd leaf False pa pnode pi by (simp add: Let_def)
        have wf2: "wf_heap md ?h2" by (rule wf_heap_detach_free[OF wf nd pa pnode pi])
        have ok2: "parents_ok md ?h2" by (rule parents_ok_detach_free[OF wf ok nd leaf pnode])
        from Suc.IH[OF wf2 ok2 rec] show ?thesis .
      qed
    next
      case False
      show ?thesis
      proof (cases "list_ex (\<lambda>c. c \<noteq> None) (take childNum (children nd))")
        case True
        then show ?thesis using run ok Some nd False by simp
      next
        case nolive: False
        then have rec: "deletePointRecurse n h (parent nd) = Returned (b, h')"
          using run Some nd False by (simp split: if_splits)
        from Suc.IH[OF wf ok rec] show ?thesis .
      qed
    qed
  qed
qed

lemma deletePoint_wf:
  assumes wf: "wf_tree t" and run: "deletePoint n pm t point = Returned (b, t')"
  shows "wf_tree t'"
proof (cases "index n pm (heap t) point (rootNode t)")
  case (Returned r)
  show ?thesis
  proof (cases r)
    case None
    then show ?thesis using run wf Returned by (simp add: deletePoint_def)
  next
    case (Some a)
    then obtain node where node: "deref (heap t) a = Some node"
      using run Returned by (cases "deref (heap t) a") (auto simp: deletePoint_def)
    obtain l where l: "erasePoints pm point 0 (pointList node) = Some l"
      using run Returned Some node
      by (cases "erasePoints pm point 0 (pointList node)") (auto simp: deletePoint_def)
    let ?node' = "node\<lparr>pointList := l\<rparr>"
    let ?h1 = "(heap t)[a := Some ?node']"
    from run Returned Some node l obtain h2 where
      rec: "deletePointRecurse n ?h1 (Some a) = Returned (b, h2)" and t': "t' = t\<lparr>heap := h2\<rparr>"
      by (auto simp: deletePoint_def Let_def split: outcome.splits)
    have wfh: "wf_heap (maxDepth t) (heap t)" using wf by (simp add: wf_tree_def)
    have wfn: "wf_node (maxDepth t) (heap t) a node" using wfh node by (simp add: wf_heap_def)
    have wf1: "wf_heap (maxDepth t) ?h1"
      using wf_heap_update_same_links[OF wfh node, of ?node'] wfn by (simp add: wf_node_def)
    have ok1: "parents_ok (maxDepth t) ?h1"
      using wf by (intro parents_ok_update_same[OF _ node]) (simp_all add: wf_tree_def)
    have f1: "del_frame (heap t) ?h1"
      unfolding del_frame_def using node by (auto simp: deref_update split: if_splits)
    from deletePointRecurse_inv[OF wf1 rec] have r: "wf_heap (maxDepth t) h2" "del_frame ?h1 h2"
      by simp_all
    have fr: "del_frame (heap t) h2" using del_frame_trans[OF f1 r(2)] .
    have ok2: "parents_ok (maxDepth t) h2" by (rule deletePointRecurse_parents_ok[OF wf1 ok1 rec])
    have link: "origin_n nd = origin_t t \<and> size_n nd = size_t t \<and> parent nd = None"
      if "rootNode t = Some ra" "deref h2 ra = Some nd" for ra nd
    proof -
      from fr that(2) obtain nd0 where "deref (heap t) ra = Some nd0" "origin_n nd = origin_n nd0"
        "size_n nd = size_n nd0" "parent nd = parent nd0" unfolding del_frame_def by blast
      then show ?thesis using wf that(1) by (auto simp: wf_tree_def)
    qed
    show ?thesis unfolding wf_tree_def t' using r(1) ok2 link by simp
  qed
next
  case (Raised e s)
  then show ?thesis using run by (simp add: deletePoint_def)
next
  case Undefined
  then show ?thesis using run by (simp add: deletePoint_def)
next
  case NoFuel
  then show ?thesis using run by (simp add: deletePoint_def)
qed

subsection \<open>Every tree a caller can build has the shape\<close>

lemma wf_tree_newOctree: "wf_tree (newOctree md s orig)"
  by (simp add: wf_tree_def wf_heap_def parents_ok_def newOctree_def deref_def)

lemma reachable_wf_tree: "reachable t \<Longrightarrow> wf_tree t"
proof (induction rule: reachable.induct)
  case (new md s orig)
  show ?case by (rule wf_tree_newOctree)
next
  case (inserted t n point t')
  then show ?case using insertPoint_root_wf by blast
next
  case (insert_raised t n point e t')
  then show ?case using insertPoint_root_wf by blast
next
  case (deleted t n point b t')
  then show ?case using deletePoint_wf by blast
qed


subsection \<open>A found point stays found under further insertions\<close>

lemma index_Some_leaf:
  "index n pm h point node = Returned (Some leaf) \<Longrightarrow>
   \<exists>ln. deref h leaf = Some ln \<and> isLeaf ln \<and> scanPoints pm point (pointList ln) = Some True"
proof (induction n arbitrary: node)
  case 0
  then show ?case by simp
next
  case (Suc n)
  show ?case
  proof (cases node)
    case None
    then show ?thesis using Suc.prems by simp
  next
    case (Some a)
    show ?thesis using Suc.prems Suc.IH unfolding Some
      by (auto simp: Let_def split: option.splits if_splits bool.splits)
  qed
qed

lemma index_persist:
  assumes wf: "wf_heap md h" and fr: "ins_frame md d h h'" and alive: "points_alive pm h'"
    and idx: "index n pm h point node = Returned (Some leaf)"
  shows "index n pm h' point node = Returned (Some leaf)"
  using idx
proof (induction n arbitrary: node)
  case 0
  then show ?case by simp
next
  case (Suc n)
  then obtain a where node: "node = Some a" by (cases node) auto
  then obtain nd where nd: "deref h a = Some nd"
    using Suc.prems by (cases "deref h a") auto
  from fr nd obtain nd' where nd': "deref h' a = Some nd'" "node_grows md nd nd'"
    unfolding ins_frame_def by blast
  have wfn: "wf_node md h a nd" using wf nd by (simp add: wf_heap_def)
  show ?case
  proof (cases "isLeaf nd")
    case True
    then have "scanPoints pm point (pointList nd) = Some True" "leaf = a"
      using Suc.prems node nd by (auto split: if_splits option.splits)
    then obtain q where q: "q \<in> set (pointList nd)" "pm q = Some point"
      using scanPoints_True_entry by blast
    have "isLeaf nd'" "q \<in> set (pointList nd')"
      using nd'(2) True q(1) unfolding node_grows_def by blast+
    moreover have "scanPoints pm point (pointList nd') = Some True"
      by (rule scanPoints_finds[OF points_alive_entries[OF alive nd'(1)] \<open>q \<in> set (pointList nd')\<close> q(2)])
    ultimately show ?thesis using node nd' \<open>leaf = a\<close> by simp
  next
    case False
    let ?ci = "childIndex point (origin_n nd) (size_n nd)"
    have ci: "?ci < childNum" by (rule childIndex_less)
    have inb: "isPointInBound point (origin_n nd) (size_n nd)"
      using Suc.prems node nd False by (auto split: if_splits)
    have lc: "length (children nd) = childNum" using wfn by (simp add: wf_node_def)
    obtain c where c: "children nd ! ?ci = Some c"
      using Suc.prems node nd False inb lc ci by (cases "children nd ! ?ci") (auto simp: Let_def)
    have rec: "index n pm h point (Some c) = Returned (Some leaf)"
      using Suc.prems node nd False inb lc ci c by (simp add: Let_def)
    have "depth nd \<noteq> md" using wfn c ci unfolding wf_node_def by auto
    then have nl': "\<not> isLeaf nd'" using nd'(2) False unfolding node_grows_def by blast
    have same: "origin_n nd' = origin_n nd" "size_n nd' = size_n nd"
      "length (children nd') = childNum" "children nd' ! ?ci = Some c"
      using nd'(2) lc c unfolding node_grows_def by simp_all
    show ?thesis using node nd'(1) nl' same inb ci Suc.IH[OF rec] by (simp add: Let_def)
  qed
qed

lemma insertPoint_root_alive:
  assumes "wf_tree t"
    and "insertPoint_root n t pt point = Returned t' \<or> insertPoint_root n t pt point = Raised e t'"
    and "points_alive pm (heap t')"
  shows "points_alive pm (heap t)"
  using insertPoint_root_frame[OF assms(1,2)] ins_frame_alive[OF _ assms(3)] by blast

lemma insertPoint_root_persist:
  assumes wf: "wf_tree t1"
    and run: "insertPoint_root n t1 pt' q = Returned t2 \<or> insertPoint_root n t1 pt' q = Raised e t2"
    and alive: "points_alive pm (heap t2)"
    and idx: "index m pm (heap t1) point (rootNode t1) = Returned (Some leaf)"
    and entry: "deref (heap t1) leaf = Some lf" "isLeaf lf" "pt \<in> set (pointList lf)"
  shows "index m pm (heap t2) point (rootNode t2) = Returned (Some leaf) \<and>
         origin_t t2 = origin_t t1 \<and> size_t t2 = size_t t1 \<and>
         (\<exists>ln'. deref (heap t2) leaf = Some ln' \<and> isLeaf ln' \<and> pt \<in> set (pointList ln'))"
proof -
  have root: "rootNode t1 \<noteq> None" using idx by (cases "rootNode t1"; cases m) auto
  from insertPoint_root_frame[OF wf run] root obtain d where
    fr: "ins_frame (maxDepth t1) d (heap t1) (heap t2)" and
    same: "origin_t t2 = origin_t t1" "size_t t2 = size_t t1" "rootNode t2 = rootNode t1"
    by auto
  have wfh: "wf_heap (maxDepth t1) (heap t1)" using wf by (simp add: wf_tree_def)
  from index_persist[OF wfh fr alive idx] ins_frame_entry[OF fr entry] same
  show ?thesis by simp
qed

lemma insertions_reachable: "insertions t t' \<Longrightarrow> reachable t \<Longrightarrow> reachable t'"
  by (induction rule: insertions.induct) (auto intro: reachable.intros)

lemma insertions_alive:
  assumes "insertions t1 t2" "reachable t1" "points_alive pm (heap t2)"
  shows "points_alive pm (heap t1)"
  using assms
proof (induction rule: insertions.induct)
  case (none t)
  then show ?case by simp
next
  case (more t t1 n pt' q t2)
  have "wf_tree t1" using insertions_reachable[OF more.hyps(1) more.prems(1)] by (rule reachable_wf_tree)
  from insertPoint_root_alive[OF this _ more.prems(2), of n pt' q] more.hyps(2)
  have "points_alive pm (heap t1)" by simp
  then show ?case using more.IH more.prems(1) by simp
next
  case (more_raised t t1 n pt' q e t2)
  have "wf_tree t1" using insertions_reachable[OF more_raised.hyps(1) more_raised.prems(1)]
    by (rule reachable_wf_tree)
  from insertPoint_root_alive[OF this _ more_raised.prems(2), of n pt' q e] more_raised.hyps(2)
  have "points_alive pm (heap t1)" by simp
  then show ?case using more_raised.IH more_raised.prems(1) by simp
qed

lemma insertions_persist:
  assumes "insertions t1 t2" "reachable t1" "points_alive pm (heap t2)"
    and "index m pm (heap t1) point (rootNode t1) = Returned (Some leaf)"
    and "isPointInBound_tree t1 point"
    and "\<exists>ln. deref (heap t1) leaf = Some ln \<and> isLeaf ln \<and> pt \<in> set (pointList ln)"
  shows "index m pm (heap t2) point (rootNode t2) = Returned (Some leaf) \<and> isPointInBound_tree t2 point \<and>
         (\<exists>ln. deref (heap t2) leaf = Some ln \<and> isLeaf ln \<and> pt \<in> set (pointList ln))"
  using assms
proof (induction rule: insertions.induct)
  case (none t)
  then show ?case by simp
next
  case (more t t1 n pt' q t2)
  have wf1: "wf_tree t1" using insertions_reachable[OF more.hyps(1) more.prems(1)] by (rule reachable_wf_tree)
  from insertPoint_root_alive[OF wf1 _ more.prems(2), of n pt' q] more.hyps(2)
  have alive1: "points_alive pm (heap t1)" by simp
  from more.IH[OF more.prems(1) alive1 more.prems(3,4,5)] obtain ln where
    1: "index m pm (heap t1) point (rootNode t1) = Returned (Some leaf)" "isPointInBound_tree t1 point"
       "deref (heap t1) leaf = Some ln" "isLeaf ln" "pt \<in> set (pointList ln)"
    by blast
  from insertPoint_root_persist[OF wf1 _ more.prems(2) 1(1) 1(3,4,5), of n pt' q] more.hyps(2) 1(2)
  show ?case by (simp add: isPointInBound_tree_def)
next
  case (more_raised t t1 n pt' q e t2)
  have wf1: "wf_tree t1" using insertions_reachable[OF more_raised.hyps(1) more_raised.prems(1)]
    by (rule reachable_wf_tree)
  from insertPoint_root_alive[OF wf1 _ more_raised.prems(2), of n pt' q e] more_raised.hyps(2)
  have alive1: "points_alive pm (heap t1)" by simp
  from more_raised.IH[OF more_raised.prems(1) alive1 more_raised.prems(3,4,5)] obtain ln where
    1: "index m pm (heap t1) point (rootNode t1) = Returned (Some leaf)" "isPointInBound_tree t1 point"
       "deref (heap t1) leaf = Some ln" "isLeaf ln" "pt \<in> set (pointList ln)"
    by blast
  from insertPoint_root_persist[OF wf1 _ more_raised.prems(2) 1(1) 1(3,4,5), of n pt' q e]
    more_raised.hyps(2) 1(2)
  show ?case by (simp add: isPointInBound_tree_def)
qed

lemma insertPoint_root_found_persist:
  assumes "reachable t" and "insertPoint_root n t pt point = Returned t1"
    and "insertions t1 t2" and "n \<le> m"
    and "points_alive pm (heap t2)" and "pm pt = Some point"
  shows "\<exists>leaf ln. index m pm (heap t2) point (rootNode t2) = Returned (Some leaf) \<and>
           index_tree m pm t2 point = Returned (Some leaf) \<and>
           deref (heap t2) leaf = Some ln \<and> isLeaf ln \<and> pt \<in> set (pointList ln)"
proof -
  have r1: "reachable t1" using assms(1,2) by (rule reachable.inserted)
  have alive1: "points_alive pm (heap t1)" by (rule insertions_alive[OF assms(3) r1 assms(5)])
  from insertPoint_root_found[OF reachable_wf_tree[OF assms(1)] assms(2) alive1 assms(6)]
  obtain leaf ln where l: "index n pm (heap t1) point (rootNode t1) = Returned (Some leaf)"
    "isPointInBound_tree t1 point" "deref (heap t1) leaf = Some ln" "isLeaf ln" "pt \<in> set (pointList ln)"
    by blast
  have e: "\<exists>ln. deref (heap t1) leaf = Some ln \<and> isLeaf ln \<and> pt \<in> set (pointList ln)"
    using l(3,4,5) by blast
  from insertions_persist[OF assms(3) r1 assms(5) index_fuel_mono[OF l(1) assms(4)] l(2) e]
  show ?thesis by (auto simp: index_tree_def)
qed


text \<open>
  C9 (containment). Counterexample: a point is inserted and the insertion returns; the
  caller then stores other coordinates in the object it passed. The lookup of the inserted
  coordinates reads the entry through the stored address, finds the new coordinates and
  returns null. The tree has \<^verbatim>\<open>maxDepth = 1\<close> over the cube of origin \<open>(0,0,0)\<close> and size 2;
  the object at address 0 holds \<open>(3/2,1/2,3/2)\<close> at the insertion and \<open>(1/2,1/2,1/2)\<close>
  afterwards. The same happens when the caller passes the object to a second insertion
  with the new coordinates: the second point is found, the first is not.
\<close>

theorem lookup_misses_after_object_changed:
  "insertPoint_root 2 (newOctree 1 2 (Point3f 0 0 0)) 0 (Point3f (3/2) (1/2) (3/2)) =
     Returned 
     \<lparr>rootNode = Some 0, size_t = 2, maxDepth = 1, origin_t = Point3f 0 0 0,
        heap =
        [Some \<lparr>children = [None, None, None, None, None, Some 1, None, None],
               parent = None, parentIndex = - 1, depth = 0, size_n = 2,
               origin_n = Point3f 0 0 0, isLeaf = False, pointList = []\<rparr>,
         Some \<lparr>children = [None, None, None, None, None, None, None, None],
               parent = Some 0, parentIndex = 5, depth = 1, size_n = 1,
               origin_n = Point3f 1 0 1, isLeaf = True,
               pointList = [0]\<rparr>]\<rparr> \<and>
   index_tree 2 [0 \<mapsto> Point3f (3/2) (1/2) (3/2)] 
     \<lparr>rootNode = Some 0, size_t = 2, maxDepth = 1, origin_t = Point3f 0 0 0,
        heap =
        [Some \<lparr>children = [None, None, None, None, None, Some 1, None, None],
               parent = None, parentIndex = - 1, depth = 0, size_n = 2,
               origin_n = Point3f 0 0 0, isLeaf = False, pointList = []\<rparr>,
         Some \<lparr>children = [None, None, None, None, None, None, None, None],
               parent = Some 0, parentIndex = 5, depth = 1, size_n = 1,
               origin_n = Point3f 1 0 1, isLeaf = True,
               pointList = [0]\<rparr>]\<rparr>
       (Point3f (3/2) (1/2) (3/2)) = Returned (Some 1) \<and>
   index_tree 2 [0 \<mapsto> Point3f (1/2) (1/2) (1/2)] 
     \<lparr>rootNode = Some 0, size_t = 2, maxDepth = 1, origin_t = Point3f 0 0 0,
        heap =
        [Some \<lparr>children = [None, None, None, None, None, Some 1, None, None],
               parent = None, parentIndex = - 1, depth = 0, size_n = 2,
               origin_n = Point3f 0 0 0, isLeaf = False, pointList = []\<rparr>,
         Some \<lparr>children = [None, None, None, None, None, None, None, None],
               parent = Some 0, parentIndex = 5, depth = 1, size_n = 1,
               origin_n = Point3f 1 0 1, isLeaf = True,
               pointList = [0]\<rparr>]\<rparr>
       (Point3f (3/2) (1/2) (3/2)) = Returned None \<and>
   insertPoint_root 2 
     \<lparr>rootNode = Some 0, size_t = 2, maxDepth = 1, origin_t = Point3f 0 0 0,
        heap =
        [Some \<lparr>children = [None, None, None, None, None, Some 1, None, None],
               parent = None, parentIndex = - 1, depth = 0, size_n = 2,
               origin_n = Point3f 0 0 0, isLeaf = False, pointList = []\<rparr>,
         Some \<lparr>children = [None, None, None, None, None, None, None, None],
               parent = Some 0, parentIndex = 5, depth = 1, size_n = 1,
               origin_n = Point3f 1 0 1, isLeaf = True,
               pointList = [0]\<rparr>]\<rparr> 0 (Point3f (1/2) (1/2) (1/2)) = Returned 
     \<lparr>rootNode = Some 0, size_t = 2, maxDepth = 1, origin_t = Point3f 0 0 0,
        heap =
        [Some \<lparr>children = [Some 2, None, None, None, None, Some 1, None, None],
               parent = None, parentIndex = - 1, depth = 0, size_n = 2,
               origin_n = Point3f 0 0 0, isLeaf = False, pointList = []\<rparr>,
         Some \<lparr>children = [None, None, None, None, None, None, None, None],
               parent = Some 0, parentIndex = 5, depth = 1, size_n = 1,
               origin_n = Point3f 1 0 1, isLeaf = True,
               pointList = [0]\<rparr>,
         Some \<lparr>children = [None, None, None, None, None, None, None, None],
               parent = Some 0, parentIndex = 0, depth = 1, size_n = 1,
               origin_n = Point3f 0 0 0, isLeaf = True,
               pointList = [0]\<rparr>]\<rparr> \<and>
   index_tree 2 [0 \<mapsto> Point3f (1/2) (1/2) (1/2)] 
     \<lparr>rootNode = Some 0, size_t = 2, maxDepth = 1, origin_t = Point3f 0 0 0,
        heap =
        [Some \<lparr>children = [Some 2, None, None, None, None, Some 1, None, None],
               parent = None, parentIndex = - 1, depth = 0, size_n = 2,
               origin_n = Point3f 0 0 0, isLeaf = False, pointList = []\<rparr>,
         Some \<lparr>children = [None, None, None, None, None, None, None, None],
               parent = Some 0, parentIndex = 5, depth = 1, size_n = 1,
               origin_n = Point3f 1 0 1, isLeaf = True,
               pointList = [0]\<rparr>,
         Some \<lparr>children = [None, None, None, None, None, None, None, None],
               parent = Some 0, parentIndex = 0, depth = 1, size_n = 1,
               origin_n = Point3f 0 0 0, isLeaf = True,
               pointList = [0]\<rparr>]\<rparr>
       (Point3f (1/2) (1/2) (1/2)) = Returned (Some 2) \<and>
   index_tree 2 [0 \<mapsto> Point3f (1/2) (1/2) (1/2)] 
     \<lparr>rootNode = Some 0, size_t = 2, maxDepth = 1, origin_t = Point3f 0 0 0,
        heap =
        [Some \<lparr>children = [Some 2, None, None, None, None, Some 1, None, None],
               parent = None, parentIndex = - 1, depth = 0, size_n = 2,
               origin_n = Point3f 0 0 0, isLeaf = False, pointList = []\<rparr>,
         Some \<lparr>children = [None, None, None, None, None, None, None, None],
               parent = Some 0, parentIndex = 5, depth = 1, size_n = 1,
               origin_n = Point3f 1 0 1, isLeaf = True,
               pointList = [0]\<rparr>,
         Some \<lparr>children = [None, None, None, None, None, None, None, None],
               parent = Some 0, parentIndex = 0, depth = 1, size_n = 1,
               origin_n = Point3f 0 0 0, isLeaf = True,
               pointList = [0]\<rparr>]\<rparr>
       (Point3f (3/2) (1/2) (3/2)) = Returned None"
  by code_simp

text \<open>
  C9 as amended. On every tree a caller can build, when
  \<^verbatim>\<open>insertPoint\<close> on the root pointer returns for the object at address \<open>pt\<close> holding
  \<open>point\<close> (within \<open>n\<close> nested calls), then straight away and after any number of further
  insertions, provided that at the time of the lookup the object at \<open>pt\<close> still holds
  \<open>point\<close> and every object whose address a node of the tree stores still exists, both
  \<^verbatim>\<open>index(point, rootNode)\<close> and \<^verbatim>\<open>index(point)\<close> return (within any bound \<open>m \<ge> n\<close>) a
  live node that is marked as a leaf and whose \<^verbatim>\<open>pointList\<close> contains the address \<open>pt\<close>.
\<close>

theorem insert_then_index_finds:
  assumes "reachable t" and "insertPoint_root n t pt point = Returned t1"
    and "insertions t1 t2" and "n \<le> m"
    and "points_alive pm (heap t2)" and "pm pt = Some point"
  shows "\<exists>leaf ln. index m pm (heap t2) point (rootNode t2) = Returned (Some leaf) \<and>
           index_tree m pm t2 point = Returned (Some leaf) \<and>
           deref (heap t2) leaf = Some ln \<and> isLeaf ln \<and> pt \<in> set (pointList ln)"
  using assms by (rule insertPoint_root_found_persist)

text \<open>Witness for the amended C9: the object at address 0 holding \<open>(3/2,1/2,3/2)\<close> inserted into the
  new tree with \<^verbatim>\<open>maxDepth = 1\<close> over the cube of origin \<open>(0,0,0)\<close> and size 2, then the
  object at address 1 holding \<open>(1/2,1/2,1/2)\<close> inserted after it; both objects keep their
  coordinates.\<close>

theorem insert_then_index_finds_witness:
  "\<exists>leaf ln. index 2 [0 \<mapsto> Point3f (3/2) (1/2) (3/2), 1 \<mapsto> Point3f (1/2) (1/2) (1/2)]
       [Some \<lparr>children = [Some 2, None, None, None, None, Some 1, None, None],
               parent = None, parentIndex = - 1, depth = 0, size_n = 2,
               origin_n = Point3f 0 0 0, isLeaf = False, pointList = []\<rparr>,
         Some \<lparr>children = [None, None, None, None, None, None, None, None],
               parent = Some 0, parentIndex = 5, depth = 1, size_n = 1,
               origin_n = Point3f 1 0 1, isLeaf = True,
               pointList = [0]\<rparr>,
         Some \<lparr>children = [None, None, None, None, None, None, None, None],
               parent = Some 0, parentIndex = 0, depth = 1, size_n = 1,
               origin_n = Point3f 0 0 0, isLeaf = True,
               pointList = [1]\<rparr>]
       (Point3f (3/2) (1/2) (3/2)) (Some 0) = Returned (Some leaf) \<and>
     deref
       [Some \<lparr>children = [Some 2, None, None, None, None, Some 1, None, None],
               parent = None, parentIndex = - 1, depth = 0, size_n = 2,
               origin_n = Point3f 0 0 0, isLeaf = False, pointList = []\<rparr>,
         Some \<lparr>children = [None, None, None, None, None, None, None, None],
               parent = Some 0, parentIndex = 5, depth = 1, size_n = 1,
               origin_n = Point3f 1 0 1, isLeaf = True,
               pointList = [0]\<rparr>,
         Some \<lparr>children = [None, None, None, None, None, None, None, None],
               parent = Some 0, parentIndex = 0, depth = 1, size_n = 1,
               origin_n = Point3f 0 0 0, isLeaf = True,
               pointList = [1]\<rparr>] leaf = Some ln \<and>
     isLeaf ln \<and> 0 \<in> set (pointList ln)"
    (is "\<exists>leaf ln. ?P leaf ln")
proof -
  let ?pm = "[0 \<mapsto> Point3f (3/2) (1/2) (3/2), 1 \<mapsto> Point3f (1/2) (1/2) (1/2)]"
  let ?t1 = "
     \<lparr>rootNode = Some 0, size_t = 2, maxDepth = 1, origin_t = Point3f 0 0 0,
        heap =
        [Some \<lparr>children = [None, None, None, None, None, Some 1, None, None],
               parent = None, parentIndex = - 1, depth = 0, size_n = 2,
               origin_n = Point3f 0 0 0, isLeaf = False, pointList = []\<rparr>,
         Some \<lparr>children = [None, None, None, None, None, None, None, None],
               parent = Some 0, parentIndex = 5, depth = 1, size_n = 1,
               origin_n = Point3f 1 0 1, isLeaf = True,
               pointList = [0]\<rparr>]\<rparr>"
  let ?h2 = "[Some \<lparr>children = [Some 2, None, None, None, None, Some 1, None, None],
               parent = None, parentIndex = - 1, depth = 0, size_n = 2,
               origin_n = Point3f 0 0 0, isLeaf = False, pointList = []\<rparr>,
         Some \<lparr>children = [None, None, None, None, None, None, None, None],
               parent = Some 0, parentIndex = 5, depth = 1, size_n = 1,
               origin_n = Point3f 1 0 1, isLeaf = True,
               pointList = [0]\<rparr>,
         Some \<lparr>children = [None, None, None, None, None, None, None, None],
               parent = Some 0, parentIndex = 0, depth = 1, size_n = 1,
               origin_n = Point3f 0 0 0, isLeaf = True,
               pointList = [1]\<rparr>]"
  let ?t2 = "\<lparr>rootNode = Some 0, size_t = 2, maxDepth = 1, origin_t = Point3f 0 0 0,
        heap = ?h2\<rparr>"
  have run1: "insertPoint_root 2 (newOctree 1 2 (Point3f 0 0 0)) 0 (Point3f (3/2) (1/2) (3/2)) =
     Returned ?t1"
    by code_simp
  have run2: "insertPoint_root 2 ?t1 1 (Point3f (1/2) (1/2) (1/2)) = Returned ?t2"
    by code_simp
  have ins: "insertions ?t1 ?t2"
    by (rule insertions.more[OF insertions.none run2])
  have alive: "points_alive ?pm (heap ?t2)"
    by (auto simp: points_alive_def deref_def nth_Cons' split: if_splits)
  have val: "?pm (0::nat) = Some (Point3f (3/2) (1/2) (3/2))" by simp
  have le: "(2::nat) \<le> 2" by simp
  have sel: "heap ?t2 = ?h2" "rootNode ?t2 = Some 0" by simp_all
  from insert_then_index_finds[OF reachable.new run1 ins le alive val]
  obtain leaf ln where
    f: "index 2 ?pm (heap ?t2) (Point3f (3/2) (1/2) (3/2)) (rootNode ?t2) = Returned (Some leaf)"
       "deref (heap ?t2) leaf = Some ln" "isLeaf ln" "0 \<in> set (pointList ln)"
    by blast
  from f[unfolded sel] have "?P leaf ln" by (intro conjI)
  then show ?thesis by blast
qed


text \<open>Every point of a cloud is found in the tree constructed from it, when the
  construction returns and the cloud is still in place.\<close>

lemma insertions_front:
  assumes "insertions t1 t2" "insertPoint_root n t pt q = Returned t1"
  shows "insertions t t2"
  using assms
proof (induction rule: insertions.induct)
  case (none t1)
  show ?case by (rule insertions.more[OF insertions.none none])
next
  case (more t1 ta k pt' q' t2)
  show ?case by (rule insertions.more[OF more.IH[OF more.prems] more.hyps(2)])
next
  case (more_raised t1 ta k pt' q' e t2)
  show ?case by (rule insertions.more_raised[OF more_raised.IH[OF more_raised.prems] more_raised.hyps(2)])
qed

lemma insertAll_insertions: "insertAll n t pa qs = Returned t' \<Longrightarrow> insertions t t'"
proof (induction qs arbitrary: t pa)
  case Nil
  then show ?case by (simp add: insertions.none)
next
  case (Cons q qs)
  then obtain t1 where t1: "insertPoint_root n t pa q = Returned t1" "insertAll n t1 (pa + 1) qs = Returned t'"
    by (auto split: outcome.splits)
  show ?case by (rule insertions_front[OF Cons.IH[OF t1(2)] t1(1)])
qed

lemma insertAll_finds_all:
  assumes "reachable t" "insertAll n t pa qs = Returned t'" "i < length qs"
    and "points_alive pm (heap t')" "pm (pa + i) = Some (qs ! i)"
  shows "\<exists>leaf ln. index n pm (heap t') (qs ! i) (rootNode t') = Returned (Some leaf) \<and>
           index_tree n pm t' (qs ! i) = Returned (Some leaf) \<and>
           deref (heap t') leaf = Some ln \<and> isLeaf ln \<and> pa + i \<in> set (pointList ln)"
  using assms
proof (induction qs arbitrary: t pa i)
  case Nil
  then show ?case by simp
next
  case (Cons q qs)
  then obtain t1 where t1: "insertPoint_root n t pa q = Returned t1" "insertAll n t1 (pa + 1) qs = Returned t'"
    by (auto split: outcome.splits)
  have r1: "reachable t1" using Cons.prems(1) t1(1) by (rule reachable.inserted)
  show ?case
  proof (cases i)
    case 0
    from insertPoint_root_found_persist[OF Cons.prems(1) t1(1) insertAll_insertions[OF t1(2)] _ Cons.prems(4), of n]
      Cons.prems(5) 0
    show ?thesis by simp
  next
    case (Suc j)
    then have j: "j < length qs" "pm (pa + 1 + j) = Some (qs ! j)" using Cons.prems(3,5) by simp_all
    from Cons.IH[OF r1 t1(2) j(1) Cons.prems(4) j(2)] Suc show ?thesis by simp
  qed
qed

lemma fromPointCloud_finds_all:
  assumes "Octree_fromPointCloud n md base pointCloud = Returned (b, t')" "i < length pointCloud"
    and "points_alive pm (heap t')" "pm (base + i) = Some (pointCloud ! i)"
  shows "\<exists>leaf ln. index n pm (heap t') (pointCloud ! i) (rootNode t') = Returned (Some leaf) \<and>
           index_tree n pm t' (pointCloud ! i) = Returned (Some leaf) \<and>
           deref (heap t') leaf = Some ln \<and> isLeaf ln \<and> base + i \<in> set (pointList ln)"
proof -
  from assms(1) obtain center where c: "findCenterInPointCloud pointCloud = Returned center"
    unfolding Octree_fromPointCloud_def convertFromPointCloud_def
    by (cases "findCenterInPointCloud pointCloud") auto
  define halfSize where "halfSize = max (pt_x center) (max (pt_y center) (pt_z center))"
  define t1 where "t1 = newOctree md (2 * halfSize) (pt_sub center (Point3f halfSize halfSize halfSize))"
  have "insertAll n t1 base pointCloud = Returned t'"
    using assms(1) c unfolding Octree_fromPointCloud_def convertFromPointCloud_def
    by (auto simp: Let_def t1_def halfSize_def newOctree_def split: outcome.splits)
  moreover have "reachable t1" unfolding t1_def by (rule reachable.new)
  ultimately show ?thesis using insertAll_finds_all assms(2,3,4) by blast
qed

section \<open>Lookup after deletion\<close>

text \<open>
  Where \<^verbatim>\<open>deletePoint\<close> returns on a tree a caller can build, the lookup of the deleted
  point returns null afterwards: either the emptied leaf is still there and holds
  nothing, or the leaf was taken out of its parent's slot. The call does not return when
  the leaf is the root and keeps an entry.
\<close>

lemma deletePointRecurse_inner_unchanged:
  assumes "wf_heap md h" "parents_ok md h"
    and "node = None \<or> (\<exists>x xn. node = Some x \<and> deref h x = Some xn \<and> \<not> isLeaf xn)"
    and "deletePointRecurse n h node = Returned (b, h')"
  shows "h' = h"
  using assms(3,4)
proof (induction n arbitrary: node)
  case 0
  then show ?case by simp
next
  case (Suc n)
  show ?case
  proof (cases node)
    case None
    then show ?thesis using Suc.prems by simp
  next
    case (Some x)
    then obtain xn where xn: "deref h x = Some xn" "\<not> isLeaf xn" using Suc.prems(1) by auto
    show ?thesis
    proof (cases "list_ex (\<lambda>c. c \<noteq> None) (take childNum (children xn))")
      case True
      then show ?thesis using Suc.prems(2) Some xn by simp
    next
      case False
      then have rec: "deletePointRecurse n h (parent xn) = Returned (b, h')"
        using Suc.prems(2) Some xn by (simp split: if_splits)
      have "parent xn = None \<or> (\<exists>y yn. parent xn = Some y \<and> deref h y = Some yn \<and> \<not> isLeaf yn)"
      proof (cases "parent xn")
        case None
        then show ?thesis by simp
      next
        case (Some y)
        then obtain yn where yn: "deref h y = Some yn" "depth yn \<noteq> md"
          using assms(2) xn(1) unfolding parents_ok_def by blast
        then have "\<not> isLeaf yn" using assms(1) by (auto simp: wf_heap_def wf_node_def)
        then show ?thesis using Some yn by simp
      qed
      from Suc.IH[OF this rec] show ?thesis .
    qed
  qed
qed

lemma index_after_erase:
  assumes a: "deref h a = Some an" and leaf: "isLeaf an'" and gone: "scanPoints pm point (pointList an') = Some False"
    and idx: "index m pm h point node = Returned (Some a)"
  shows "index m pm (h[a := Some an']) point node = Returned None"
  using idx
proof (induction m arbitrary: node)
  case 0
  then show ?case by simp
next
  case (Suc m)
  then obtain b where node: "node = Some b" by (cases node) auto
  have al: "a < length h" using a by (rule deref_Some_less)
  show ?case
  proof (cases "b = a")
    case True
    then show ?thesis using node al leaf gone by (simp add: deref_update)
  next
    case False
    then obtain nb where nb: "deref h b = Some nb"
      using Suc.prems node by (cases "deref h b") auto
    have nl: "\<not> isLeaf nb" using Suc.prems node nb False by (auto split: if_splits option.splits)
    have same: "deref (h[a := Some an']) b = Some nb" using nb False by (simp add: deref_update)
    show ?thesis using Suc.prems Suc.IH node nb nl same
      by (auto simp: Let_def split: if_splits option.splits)
  qed
qed

lemma index_last_edge:
  assumes "index m pm h point (Some b) = Returned (Some a)" "b \<noteq> a"
  shows "\<exists>y yn i. deref h y = Some yn \<and> i < length (children yn) \<and> children yn ! i = Some a"
  using assms
proof (induction m arbitrary: b)
  case 0
  then show ?case by simp
next
  case (Suc m)
  then obtain nb where nb: "deref h b = Some nb" by (cases "deref h b") auto
  have nl: "\<not> isLeaf nb" using Suc.prems nb by (auto split: if_splits option.splits)
  let ?ci = "childIndex point (origin_n nb) (size_n nb)"
  have inb: "isPointInBound point (origin_n nb) (size_n nb)" and lc: "?ci < length (children nb)"
    using Suc.prems nb nl by (auto simp: Let_def split: if_splits)
  obtain c where c: "children nb ! ?ci = Some c" "index m pm h point (Some c) = Returned (Some a)"
    using Suc.prems nb nl inb lc by (cases "children nb ! ?ci") (auto simp: Let_def)
  show ?case
  proof (cases "c = a")
    case True
    then show ?thesis using nb lc c(1) by blast
  next
    case False
    from Suc.IH[OF c(2) False] show ?thesis .
  qed
qed

lemma index_after_detach:
  assumes wf: "wf_heap md h" and a: "deref h a = Some an" and x: "deref h x = Some xn"
    and slot: "k < childNum" "children xn ! k = Some a"
    and idx: "index m pm h point node = Returned (Some a)" and start: "node \<noteq> Some a"
  shows "index m pm ((h[x := Some (xn\<lparr>children := (children xn)[k := None]\<rparr>)])[a := None]) point node
           = Returned None"
    (is "index m pm ?h2 point node = _")
  using idx start
proof (induction m arbitrary: node)
  case 0
  then show ?case by simp
next
  case (Suc m)
  then obtain b where node: "node = Some b" and ba: "b \<noteq> a" by (cases node) auto
  have al: "a < length h" using a by (rule deref_Some_less)
  have xl: "x < length h" using x by (rule deref_Some_less)
  have wfx: "wf_node md h x xn" using wf x by (simp add: wf_heap_def)
  have ax: "parent an = Some x" "parentIndex an = int k"
    using wfx slot a unfolding wf_node_def by fastforce+
  have xa: "x \<noteq> a" using wfx slot a x unfolding wf_node_def by fastforce
  have d2: "deref ?h2 c = (if c = a then None
      else if c = x then Some (xn\<lparr>children := (children xn)[k := None]\<rparr>) else deref h c)" for c
    using al xl by (simp add: deref_update)
  obtain nb where nb: "deref h b = Some nb"
    using Suc.prems node by (cases "deref h b") auto
  have wfb: "wf_node md h b nb" using wf nb by (simp add: wf_heap_def)
  have nl: "\<not> isLeaf nb" using Suc.prems node nb ba by (auto split: if_splits option.splits)
  let ?ci = "childIndex point (origin_n nb) (size_n nb)"
  have ci: "?ci < childNum" by (rule childIndex_less)
  have lc: "length (children nb) = childNum" using wfb by (simp add: wf_node_def)
  have inb: "isPointInBound point (origin_n nb) (size_n nb)"
    using Suc.prems node nb nl by (auto split: if_splits)
  obtain c where c: "children nb ! ?ci = Some c" "index m pm h point (Some c) = Returned (Some a)"
    using Suc.prems node nb nl inb lc ci by (cases "children nb ! ?ci") (auto simp: Let_def)
  show ?case
  proof (cases "c = a")
    case True
    then have "parent an = Some b" "parentIndex an = int ?ci"
      using wfb c(1) ci a unfolding wf_node_def by fastforce+
    then have bx: "b = x" "?ci = k" using ax by simp_all
    then have nbx: "nb = xn" using nb x by simp
    have "deref ?h2 b = Some (xn\<lparr>children := (children xn)[k := None]\<rparr>)"
      using bx ba d2[of b] by simp
    then show ?thesis using node nl inb lc ci bx nbx by (simp add: Let_def)
  next
    case False
    then have rec: "index m pm ?h2 point (Some c) = Returned None"
      using Suc.IH[OF c(2)] by simp
    show ?thesis
    proof (cases "b = x")
      case True
      then have nbx: "nb = xn" using nb x by simp
      have "?ci \<noteq> k" using c(1) slot(2) False nbx by auto
      then have "children (xn\<lparr>children := (children xn)[k := None]\<rparr>) ! ?ci = Some c"
        using c(1) nbx by simp
      moreover have "deref ?h2 b = Some (xn\<lparr>children := (children xn)[k := None]\<rparr>)"
        using True ba d2[of b] by simp
      ultimately show ?thesis using node nl inb lc ci nbx rec by (simp add: Let_def)
    next
      case False
      then have "deref ?h2 b = Some nb" using nb ba d2[of b] by simp
      then show ?thesis using node nl inb lc ci c(1) rec by (simp add: Let_def)
    qed
  qed
qed

lemma deletePoint_then_index_null:
  assumes reach: "reachable t" and run: "deletePoint n pm t point = Returned (b, t')" and nm: "n \<le> m"
  shows "index m pm (heap t') point (rootNode t') = Returned None \<and>
         index_tree m pm t' point = Returned None"
proof -
  have wf: "wf_tree t" using reach by (rule reachable_wf_tree)
  have wfh: "wf_heap (maxDepth t) (heap t)" and okh: "parents_ok (maxDepth t) (heap t)"
    using wf by (simp_all add: wf_tree_def)
  have main: "index m pm (heap t') point (rootNode t') = Returned None"
  proof (cases "index n pm (heap t) point (rootNode t)")
    case (Returned r)
    show ?thesis
    proof (cases r)
      case None
      then have "t' = t" using run Returned by (simp add: deletePoint_def)
      then show ?thesis using index_fuel_mono[OF Returned[unfolded None] nm] by simp
    next
      case (Some a)
      note found = Returned[unfolded Some]
      then obtain an where an: "deref (heap t) a = Some an"
        using run by (cases "deref (heap t) a") (auto simp: deletePoint_def)
      have leaf: "isLeaf an" using index_Some_leaf[OF found] an by auto
      have foundm: "index m pm (heap t) point (rootNode t) = Returned (Some a)"
        by (rule index_fuel_mono[OF found nm])
      obtain l' where l': "erasePoints pm point 0 (pointList an) = Some l'"
        using run found an
        by (cases "erasePoints pm point 0 (pointList an)") (auto simp: deletePoint_def)
      let ?an1 = "an\<lparr>pointList := l'\<rparr>"
      let ?h1 = "(heap t)[a := Some ?an1]"
      have al: "a < length (heap t)" using an by (rule deref_Some_less)
      from run found an l' obtain h2 where
        rec: "deletePointRecurse n ?h1 (Some a) = Returned (b, h2)" and t': "t' = t\<lparr>heap := h2\<rparr>"
        by (auto simp: deletePoint_def Let_def split: outcome.splits)
      obtain n' where n': "n = Suc n'" using rec by (cases n) auto
      have d1: "deref ?h1 a = Some ?an1" using al by (simp add: deref_update)
      show ?thesis
      proof (cases "l' = []")
        case True
        then have "h2 = ?h1" using rec n' d1 leaf by simp
        moreover have "index m pm ?h1 point (rootNode t) = Returned None"
          by (rule index_after_erase[OF an _ _ foundm]) (simp_all add: leaf True)
        ultimately show ?thesis by (simp add: t')
      next
        case False
        then obtain x where px: "parent an = Some x"
          using rec n' d1 leaf by (cases "parent an") auto
        have "depth an = maxDepth t" using wfh an leaf by (simp add: wf_heap_def wf_node_def)
        moreover obtain xn where xn: "deref (heap t) x = Some xn" "depth xn \<noteq> maxDepth t"
          using okh an px unfolding parents_ok_def by blast
        ultimately have xa: "x \<noteq> a" using an by auto
        have nlx: "\<not> isLeaf xn" using wfh xn by (auto simp: wf_heap_def wf_node_def)
        have dx1: "deref ?h1 x = Some xn" using xn xa by (simp add: deref_update)
        have pi: "0 \<le> parentIndex an" "parentIndex an < int (length (children xn))"
          using rec n' d1 leaf False px dx1 by (auto split: if_splits)
        define k where "k = nat (parentIndex an)"
        let ?xn' = "xn\<lparr>children := (children xn)[k := None]\<rparr>"
        let ?h2 = "(?h1[x := Some ?xn'])[a := None]"
        have rec2: "deletePointRecurse n' ?h2 (Some x) = Returned (b, h2)"
          using rec n' d1 leaf False px dx1 pi by (simp add: Let_def k_def)
        have wf1: "wf_heap (maxDepth t) ?h1"
          using wf_heap_update_same_links[OF wfh an, of ?an1] wfh an
          by (simp add: wf_heap_def wf_node_def)
        have ok1: "parents_ok (maxDepth t) ?h1"
          by (rule parents_ok_update_same[OF okh an]) simp_all
        have wf2: "wf_heap (maxDepth t) ?h2"
          using wf_heap_detach_free[OF wf1 d1 _ dx1, of] px pi by (simp add: k_def)
        have ok2: "parents_ok (maxDepth t) ?h2"
          using parents_ok_detach_free[OF wf1 ok1 d1 _ dx1] leaf by simp
        have xl: "x < length (heap t)" using xn(1) by (rule deref_Some_less)
        have dx2: "deref ?h2 x = Some ?xn'" using xa xl by (simp add: deref_update)
        have "h2 = ?h2"
          by (rule deletePointRecurse_inner_unchanged[OF wf2 ok2 _ rec2]) (use dx2 nlx in simp)
        moreover have h2eq: "?h2 = ((heap t)[x := Some ?xn'])[a := None]"
          using xa by (simp add: list_update_swap[of a x])
        moreover have "index m pm (((heap t)[x := Some ?xn'])[a := None]) point (rootNode t) = Returned None"
        proof -
          obtain r where r: "rootNode t = Some r" using foundm by (cases "rootNode t"; cases m) auto
          have "r \<noteq> a"
          proof
            assume "r = a"
            then have "parent an = None" using wf r an by (auto simp: wf_tree_def)
            then show False using px by simp
          qed
          from index_last_edge[OF foundm[unfolded r] this] obtain y yn i where
            y: "deref (heap t) y = Some yn" "i < length (children yn)" "children yn ! i = Some a"
            by blast
          have wfy: "wf_node (maxDepth t) (heap t) y yn" using wfh y(1) by (simp add: wf_heap_def)
          then have iy: "i < childNum" using y(2) by (simp add: wf_node_def)
          have "parent an = Some y" "parentIndex an = int i"
            using wfy iy y(3) an unfolding wf_node_def by fastforce+
          then have "y = x" "i = k" using px by (simp_all add: k_def)
          then have slot: "k < childNum" "children xn ! k = Some a" using y xn(1) iy by simp_all
          show ?thesis unfolding r
            by (rule index_after_detach[OF wfh an xn(1) slot foundm[unfolded r]]) (use \<open>r \<noteq> a\<close> in simp)
        qed
        ultimately show ?thesis by (simp add: t')
      qed
    qed
  next
    case (Raised e s)
    then show ?thesis using run by (simp add: deletePoint_def)
  next
    case Undefined
    then show ?thesis using run by (simp add: deletePoint_def)
  next
    case NoFuel
    then show ?thesis using run by (simp add: deletePoint_def)
  qed
  then show ?thesis by (simp add: index_tree_def)
qed

section \<open>The root pointer\<close>

text \<open>
  \<^verbatim>\<open>deletePoint\<close> never assigns the root pointer and \<^verbatim>\<open>insertPoint\<close> on the root pointer
  leaves it set, so after a first insertion no sequence of operations empties the tree.
\<close>

lemma deletePoint_keeps_rootNode:
  "deletePoint n pm t point = Returned (b, t') \<Longrightarrow> rootNode t' = rootNode t"
  by (auto simp: deletePoint_def Let_def split: outcome.splits option.splits)

lemma insertPoint_root_sets_rootNode:
  "insertPoint_root n t pt point = Returned t' \<Longrightarrow> rootNode t' \<noteq> None"
  by (cases "rootNode t")
     (auto simp: insertPoint_root_def insertPoint_def Let_def split: outcome.splits)

lemma apply_ops_keeps_root_set:
  "apply_ops n pm t ops = Returned t' \<Longrightarrow> rootNode t \<noteq> None \<Longrightarrow> \<not> isEmpty t'"
proof (induction ops arbitrary: t pm)
  case Nil
  then show ?case by (simp add: isEmpty_def)
next
  case (Cons op ops)
  show ?case
  proof (cases op)
    case (InsertPoint pt q)
    then obtain t1 where t1: "insertPoint_root n t pt q = Returned t1"
        "apply_ops n (pm(pt \<mapsto> q)) t1 ops = Returned t'"
      using Cons.prems(1) by (auto split: outcome.splits)
    from Cons.IH[OF t1(2) insertPoint_root_sets_rootNode[OF t1(1)]] show ?thesis .
  next
    case (DeletePoint q)
    then obtain b t1 where t1: "deletePoint n pm t q = Returned (b, t1)" "apply_ops n pm t1 ops = Returned t'"
      using Cons.prems(1) by (auto split: outcome.splits)
    from Cons.IH[OF t1(2)] deletePoint_keeps_rootNode[OF t1(1)] Cons.prems(2) show ?thesis by simp
  qed
qed

end
